(* ===== verification/Prelude.thy ===== *)
theory Prelude
  imports Complex_Main "HOL-Library.Char_ord" "HOL-Library.List_Lexorder" "HOL-Library.Code_Target_Nat"
begin

text \<open>
  Shared vocabulary of the development: the collections of rewrite rules, Go strings (byte
  sequences, so \<^typ>\<open>string\<close> is exact), decimal digit strings and their values, and the parts
  of Go's \<^verbatim>\<open>strings\<close> and \<^verbatim>\<open>strconv\<close> packages that several components call.
\<close>

named_theorems go_strings \<open>facts about Go's string functions\<close>
named_theorems digits_simps \<open>facts about decimal digit strings\<close>

type_synonym go_int64 = int   \<comment> \<open>a Go \<open>int64\<close>; range conditions are stated where they matter\<close>
type_synonym duration = int   \<comment> \<open>a Go \<open>time.Duration\<close>, in nanoseconds\<close>
type_synonym timestamp = int  \<comment> \<open>a Go \<open>time.Time\<close>, in nanoseconds since the zero time\<close>

abbreviation second :: duration where "second \<equiv> 1000000000"
abbreviation minute :: duration where "minute \<equiv> 60 * second"
abbreviation hour :: duration where "hour \<equiv> 60 * minute"

subsection \<open>Go's \<open>time.Time.Truncate\<close>\<close>

text \<open>\<^verbatim>\<open>t.Truncate(d)\<close> rounds down to a multiple of \<open>d\<close> since the zero time, and returns
  \<open>t\<close> unchanged when \<open>d \<le> 0\<close>.\<close>

definition time_truncate :: "timestamp \<Rightarrow> duration \<Rightarrow> timestamp" where
  "time_truncate t d = (if d \<le> 0 then t else t - t mod d)"

lemma time_truncate_bounds:
  "0 < d \<Longrightarrow> time_truncate t d \<le> t \<and> t < time_truncate t d + d"
  by (simp add: time_truncate_def)

lemma time_truncate_idem: "0 < d \<Longrightarrow> time_truncate (time_truncate t d) d = time_truncate t d"
  by (simp add: time_truncate_def mod_diff_left_eq)

subsection \<open>Go's integer division\<close>

text \<open>\<^verbatim>\<open>big.Int.QuoRem\<close> and the operators \<open>/\<close> and \<open>%\<close> of Go truncate towards zero.\<close>

definition go_quo :: "int \<Rightarrow> int \<Rightarrow> int" where
  "go_quo a b = sgn a * sgn b * (\<bar>a\<bar> div \<bar>b\<bar>)"

definition go_rem :: "int \<Rightarrow> int \<Rightarrow> int" where
  "go_rem a b = a - b * go_quo a b"

lemma go_quo_nonneg: "0 \<le> a \<Longrightarrow> 0 < b \<Longrightarrow> go_quo a b = a div b"
  by (cases "a = 0") (simp_all add: go_quo_def)

lemma go_rem_nonneg: "0 \<le> a \<Longrightarrow> 0 < b \<Longrightarrow> go_rem a b = a mod b"
  by (simp add: go_rem_def go_quo_nonneg minus_mult_div_eq_mod)

subsection \<open>Decimal digits\<close>

definition is_digit :: "char \<Rightarrow> bool" where
  "is_digit c = (48 \<le> (of_char c :: nat) \<and> (of_char c :: nat) \<le> 57)"

definition digit_val :: "char \<Rightarrow> nat" where
  "digit_val c = of_char c - 48"

definition digit_char :: "nat \<Rightarrow> char" where
  "digit_char n = char_of (48 + n)"

definition digits_val :: "string \<Rightarrow> nat" where
  "digits_val s = foldl (\<lambda>a c. 10 * a + digit_val c) 0 s"

definition all_digits :: "string \<Rightarrow> bool" where
  "all_digits s = list_all is_digit s"

text \<open>\<^verbatim>\<open>big.Int.String\<close> and \<^verbatim>\<open>strconv.Itoa\<close> on a non-negative number.\<close>

fun show_nat :: "nat \<Rightarrow> string" where
  "show_nat n = (if n < 10 then [digit_char n] else show_nat (n div 10) @ [digit_char (n mod 10)])"

declare show_nat.simps [simp del]

lemma digit_char_is_digit [digits_simps]: "n < 10 \<Longrightarrow> is_digit (digit_char n)"
  by (simp add: is_digit_def digit_char_def)

lemma digit_val_char [digits_simps]: "n < 10 \<Longrightarrow> digit_val (digit_char n) = n"
  by (simp add: digit_val_def digit_char_def)

lemma digit_val_less: "is_digit c \<Longrightarrow> digit_val c < 10"
  unfolding is_digit_def digit_val_def by linarith

lemma digit_char_val: "is_digit c \<Longrightarrow> digit_char (digit_val c) = c"
  by (simp add: is_digit_def digit_val_def digit_char_def)

lemma digit_val_inj: "is_digit c \<Longrightarrow> is_digit d \<Longrightarrow> digit_val c = digit_val d \<Longrightarrow> c = d"
  by (metis digit_char_val)

lemma is_digit_zero [simp]: "is_digit CHR ''0''"
  by (simp add: is_digit_def)

lemma digit_val_zero [simp]: "digit_val CHR ''0'' = 0"
  by (simp add: digit_val_def)

lemma digit_val_eq_0: "is_digit c \<Longrightarrow> (digit_val c = 0) = (c = CHR ''0'')"
  using digit_val_inj [of c "CHR ''0''"] by auto

lemma not_digit_dot [simp]: "\<not> is_digit CHR ''.''" "\<not> is_digit CHR ''-''" "\<not> is_digit CHR ''+''"
  by (simp_all add: is_digit_def)

lemma digits_foldl: "foldl (\<lambda>a c. 10 * a + digit_val c) n s = n * 10 ^ length s + digits_val s"
proof (induction s arbitrary: n)
  case Nil
  then show ?case by (simp add: digits_val_def)
next
  case (Cons c s)
  show ?case
    using Cons [of "10 * n + digit_val c"] Cons [of "digit_val c"]
    by (simp add: digits_val_def algebra_simps)
qed

lemma digits_val_Nil [simp]: "digits_val [] = 0"
  by (simp add: digits_val_def)

lemma digits_val_Cons: "digits_val (c # s) = digit_val c * 10 ^ length s + digits_val s"
  using digits_foldl [of "digit_val c" s] by (simp add: digits_val_def)

lemma digits_val_append [digits_simps]:
  "digits_val (s @ t) = digits_val s * 10 ^ length t + digits_val t"
  using digits_foldl [of "digits_val s" t] by (simp add: digits_val_def)

lemma digits_val_replicate0 [simp]: "digits_val (replicate k CHR ''0'') = 0"
  by (induction k) (simp_all add: digits_val_Cons)

lemma digits_val_snoc0 [simp]: "digits_val (s @ replicate k CHR ''0'') = digits_val s * 10 ^ k"
  by (simp add: digits_simps)

lemma digits_val_lead0 [simp]: "digits_val (replicate k CHR ''0'' @ s) = digits_val s"
  by (simp add: digits_simps)

lemma all_digits_Nil [simp]: "all_digits []"
  by (simp add: all_digits_def)

lemma all_digits_Cons [simp]: "all_digits (c # s) = (is_digit c \<and> all_digits s)"
  by (simp add: all_digits_def)

lemma all_digits_append [simp]: "all_digits (s @ t) = (all_digits s \<and> all_digits t)"
  by (simp add: all_digits_def)

lemma all_digits_replicate [simp]: "all_digits (replicate k CHR ''0'')"
  by (induction k) simp_all

lemma all_digits_set: "all_digits s = (\<forall>c \<in> set s. is_digit c)"
  by (simp add: all_digits_def list_all_iff)

lemma all_digits_take [simp]: "all_digits s \<Longrightarrow> all_digits (take n s)"
  by (auto simp: all_digits_set dest: in_set_takeD)

lemma all_digits_drop [simp]: "all_digits s \<Longrightarrow> all_digits (drop n s)"
  by (auto simp: all_digits_set dest: in_set_dropD)

lemma all_digits_takeWhile [simp]: "all_digits (takeWhile is_digit s)"
  by (auto simp: all_digits_set dest: set_takeWhileD)

lemma takeWhile_all_digits [simp]: "all_digits s \<Longrightarrow> takeWhile is_digit s = s"
  by (simp add: all_digits_set)

lemma dropWhile_all_digits [simp]: "all_digits s \<Longrightarrow> dropWhile is_digit s = []"
  by (simp add: all_digits_set)

lemma takeWhile_digits_append [simp]:
  "all_digits s \<Longrightarrow> takeWhile is_digit (s @ t) = s @ takeWhile is_digit t"
  by (simp add: all_digits_set)

lemma dropWhile_digits_append [simp]:
  "all_digits s \<Longrightarrow> dropWhile is_digit (s @ t) = dropWhile is_digit t"
  by (simp add: all_digits_set)

lemma digits_val_less: "all_digits s \<Longrightarrow> digits_val s < 10 ^ length s"
proof (induction s)
  case Nil
  then show ?case by simp
next
  case (Cons c s)
  then have "digit_val c \<le> 9" and IH: "digits_val s < 10 ^ length s"
    using digit_val_less [of c] by auto
  then have "digit_val c * 10 ^ length s \<le> 9 * 10 ^ length s" by (intro mult_right_mono) auto
  with IH have "digit_val c * 10 ^ length s + digits_val s < 10 * 10 ^ length s" by linarith
  then show ?case by (simp add: digits_val_Cons)
qed

text \<open>A digit string that does not start with 0 is at least the power of its length.\<close>

lemma digits_val_ge:
  assumes "is_digit c" and "c \<noteq> CHR ''0''"
  shows "10 ^ length s \<le> digits_val (c # s)"
proof -
  have "1 \<le> digit_val c" using assms digit_val_eq_0 [of c] by simp
  then show ?thesis by (simp add: digits_val_Cons trans_le_add1)
qed

lemma digits_val_eq_0: "all_digits s \<Longrightarrow> (digits_val s = 0) = (\<forall>c \<in> set s. c = CHR ''0'')"
  by (induction s) (auto simp: digits_val_Cons digit_val_eq_0)

text \<open>Two digit strings of one length and one value are the same string.\<close>

lemma digits_val_inj_length:
  assumes "all_digits s" and "all_digits t" and "length s = length t" and "digits_val s = digits_val t"
  shows "s = t"
  using assms(3,1,2,4)
proof (induction s t rule: list_induct2)
  case Nil
  then show ?case by simp
next
  case (Cons c s d t)
  have len: "length s = length t" using Cons.hyps .
  have lt: "digits_val s < 10 ^ length t" "digits_val t < 10 ^ length t"
    using Cons.prems len digits_val_less [of s] digits_val_less [of t] by auto
  have eq: "digit_val c * 10 ^ length t + digits_val s = digit_val d * 10 ^ length t + digits_val t"
    using Cons.prems(3) len by (simp add: digits_val_Cons)
  have "digit_val c = digit_val d"
  proof -
    have "(digit_val c * 10 ^ length t + digits_val s) div 10 ^ length t = digit_val c"
      "(digit_val d * 10 ^ length t + digits_val t) div 10 ^ length t = digit_val d"
      using lt by simp_all
    then show ?thesis using eq by simp
  qed
  moreover from this eq have "digits_val s = digits_val t" by simp
  ultimately show ?case
    using Cons.IH Cons.prems(1,2) digit_val_inj [of c d] by simp
qed

text \<open>
  The canonical spelling of a natural number: no leading zero unless the string is \<open>0\<close> itself.
  A canonical string is determined by its value.
\<close>

definition canonical_nat :: "string \<Rightarrow> bool" where
  "canonical_nat s = (all_digits s \<and> s \<noteq> [] \<and> (s = ''0'' \<or> hd s \<noteq> CHR ''0''))"

lemma canonical_nat_length:
  assumes s: "canonical_nat s" and t: "canonical_nat t" and eq: "digits_val s = digits_val t"
  shows "length s \<le> length t"
proof (rule ccontr)
  assume "\<not> length s \<le> length t"
  then have len: "length t < length s" by simp
  obtain c s' where cs: "s = c # s'" using s by (cases s) (auto simp: canonical_nat_def)
  have "c \<noteq> CHR ''0''"
  proof
    assume "c = CHR ''0''"
    with s cs have "s' = []" by (simp add: canonical_nat_def)
    with len cs have "t = []" by simp
    with t show False by (simp add: canonical_nat_def)
  qed
  then have "10 ^ length s' \<le> digits_val s"
    using s cs digits_val_ge by (simp add: canonical_nat_def)
  moreover have "digits_val t < 10 ^ length t"
    using t digits_val_less by (simp add: canonical_nat_def)
  moreover have "(10::nat) ^ length t \<le> 10 ^ length s'"
    using len cs by (simp add: power_increasing)
  ultimately show False using eq by simp
qed

lemma canonical_nat_unique:
  "canonical_nat s \<Longrightarrow> canonical_nat t \<Longrightarrow> digits_val s = digits_val t \<Longrightarrow> s = t"
  using canonical_nat_length [of s t] canonical_nat_length [of t s]
  by (intro digits_val_inj_length) (auto simp: canonical_nat_def)

lemma digits_val_show_nat [simp]: "digits_val (show_nat n) = n"
proof (induction n rule: show_nat.induct)
  case (1 n)
  show ?case
  proof (cases "n < 10")
    case True
    then show ?thesis by (subst show_nat.simps) (simp add: digits_val_Cons digits_simps)
  next
    case False
    with 1 show ?thesis
      by (subst show_nat.simps) (simp add: digits_simps digits_val_Cons)
  qed
qed

lemma show_nat_canonical: "canonical_nat (show_nat n)"
proof (induction n rule: show_nat.induct)
  case (1 n)
  show ?case
  proof (cases "n < 10")
    case True
    then have "n \<noteq> 0 \<Longrightarrow> digit_char n \<noteq> CHR ''0''"
      using digit_val_char [of n] by auto
    with True show ?thesis
      using digit_char_is_digit [of n]
      by (subst show_nat.simps) (cases "n = 0"; simp add: canonical_nat_def digit_char_def)
  next
    case False
    then have IH: "canonical_nat (show_nat (n div 10))" using 1 by simp
    moreover have "show_nat (n div 10) \<noteq> ''0''"
    proof
      assume "show_nat (n div 10) = ''0''"
      then have "digits_val (show_nat (n div 10)) = 0" by (simp add: digits_val_Cons)
      with False show False by simp
    qed
    ultimately show ?thesis using False
      by (subst show_nat.simps) (auto simp: canonical_nat_def digits_simps)
  qed
qed

lemma all_digits_show_nat [simp]: "all_digits (show_nat n)"
  using show_nat_canonical [of n] by (simp add: canonical_nat_def)

lemma show_nat_nonempty [simp]: "show_nat n \<noteq> []"
  using show_nat_canonical [of n] by (simp add: canonical_nat_def)

lemma length_show_nat: "0 < k \<Longrightarrow> (length (show_nat n) \<le> k) = (n < 10 ^ k)"
proof
  assume "length (show_nat n) \<le> k"
  then have "(10::nat) ^ length (show_nat n) \<le> 10 ^ k" by (simp add: power_increasing)
  with digits_val_less [of "show_nat n"] show "n < 10 ^ k"
    by (metis all_digits_show_nat digits_val_show_nat order_less_le_trans)
next
  assume k: "0 < k" and n: "n < 10 ^ k"
  obtain c s where cs: "show_nat n = c # s" by (cases "show_nat n") auto
  show "length (show_nat n) \<le> k"
  proof (cases "c = CHR ''0''")
    case True
    with cs k show ?thesis using show_nat_canonical [of n] by (simp add: canonical_nat_def)
  next
    case False
    have "10 ^ length s \<le> digits_val (show_nat n)"
      unfolding cs using False cs all_digits_show_nat [of n] digits_val_ge [of c s] by simp
    with n have "(10::nat) ^ length s < 10 ^ k"
      by (metis digits_val_show_nat order_le_less_trans)
    then show ?thesis using cs by simp
  qed
qed

subsection \<open>Go's \<open>strings.TrimSpace\<close>, \<open>TrimLeft\<close>, \<open>TrimRight\<close>\<close>

text \<open>
  The UTF-8 spellings of the code points \<^verbatim>\<open>unicode.IsSpace\<close> accepts. A byte sequence that is
  not valid UTF-8 decodes to the replacement rune, which is no space, so trimming removes
  exactly these sequences from either end.
\<close>

definition go_space_seqs :: "string list" where
  "go_space_seqs =
     [[CHR 0x09], [CHR 0x0A], [CHR 0x0B], [CHR 0x0C], [CHR 0x0D], [CHR 0x20],
      [CHR 0xC2, CHR 0x85], [CHR 0xC2, CHR 0xA0], [CHR 0xE1, CHR 0x9A, CHR 0x80],
      [CHR 0xE2, CHR 0x80, CHR 0x80], [CHR 0xE2, CHR 0x80, CHR 0x81],
      [CHR 0xE2, CHR 0x80, CHR 0x82], [CHR 0xE2, CHR 0x80, CHR 0x83],
      [CHR 0xE2, CHR 0x80, CHR 0x84], [CHR 0xE2, CHR 0x80, CHR 0x85],
      [CHR 0xE2, CHR 0x80, CHR 0x86], [CHR 0xE2, CHR 0x80, CHR 0x87],
      [CHR 0xE2, CHR 0x80, CHR 0x88], [CHR 0xE2, CHR 0x80, CHR 0x89],
      [CHR 0xE2, CHR 0x80, CHR 0x8A], [CHR 0xE2, CHR 0x80, CHR 0xA8],
      [CHR 0xE2, CHR 0x80, CHR 0xA9], [CHR 0xE2, CHR 0x80, CHR 0xAF],
      [CHR 0xE2, CHR 0x81, CHR 0x9F], [CHR 0xE3, CHR 0x80, CHR 0x80]]"

function strip_left :: "string list \<Rightarrow> string \<Rightarrow> string" where
  "strip_left ws s =
     (case find (\<lambda>w. w \<noteq> [] \<and> take (length w) s = w) ws of
        None \<Rightarrow> s
      | Some w \<Rightarrow> strip_left ws (drop (length w) s))"
  by pat_completeness auto
termination
proof (relation "measure (\<lambda>(ws, s). length s)")
  fix ws s w
  assume "find (\<lambda>w. w \<noteq> [] \<and> take (length w) s = w) ws = Some w"
  then have "w \<noteq> []" and "take (length w) s = w" by (auto simp: find_Some_iff)
  then have "s \<noteq> []" and "0 < length w" by auto
  then show "((ws, drop (length w) s), (ws, s)) \<in> measure (\<lambda>(ws, s). length s)" by simp
qed simp

declare strip_left.simps [simp del]

definition trim_space :: "string \<Rightarrow> string" where
  "trim_space s = rev (strip_left (map rev go_space_seqs) (rev (strip_left go_space_seqs s)))"

definition trim_left0 :: "string \<Rightarrow> string" where
  "trim_left0 s = dropWhile (\<lambda>c. c = CHR ''0'') s"

definition trim_right0 :: "string \<Rightarrow> string" where
  "trim_right0 s = rev (dropWhile (\<lambda>c. c = CHR ''0'') (rev s))"

text \<open>A visible ASCII byte starts and ends no space sequence.\<close>

definition visible_ascii :: "char \<Rightarrow> bool" where
  "visible_ascii c = (32 < (of_char c :: nat) \<and> (of_char c :: nat) < 128)"

lemma strip_left_keep:
  assumes "s \<noteq> []" and "\<forall>w \<in> set ws. w \<noteq> [] \<longrightarrow> hd w \<noteq> hd s"
  shows "strip_left ws s = s"
proof -
  have "\<not> (w \<noteq> [] \<and> take (length w) s = w)" if "w \<in> set ws" for w
    using assms that by (cases w; cases s) auto
  then have "find (\<lambda>w. w \<noteq> [] \<and> take (length w) s = w) ws = None"
    unfolding find_None_iff by blast
  then show ?thesis by (subst strip_left.simps) simp
qed

lemma space_seq_ends:
  "w \<in> set go_space_seqs \<Longrightarrow> \<not> visible_ascii (hd w) \<and> \<not> visible_ascii (last w)"
  by (auto simp: go_space_seqs_def visible_ascii_def)

lemma trim_space_visible [go_strings]:
  assumes "s \<noteq> []" and "visible_ascii (hd s)" and "visible_ascii (last s)"
  shows "trim_space s = s"
proof -
  have "strip_left go_space_seqs s = s"
    using assms by (intro strip_left_keep) (auto dest: space_seq_ends)
  moreover have "strip_left (map rev go_space_seqs) (rev s) = rev s"
    using assms by (intro strip_left_keep) (auto simp: hd_rev dest: space_seq_ends)
  ultimately show ?thesis by (simp add: trim_space_def)
qed

lemma trim_space_Nil [simp]: "trim_space [] = []"
  by (simp add: trim_space_def strip_left.simps go_space_seqs_def)

lemma digit_visible: "is_digit c \<Longrightarrow> visible_ascii c"
  by (simp add: is_digit_def visible_ascii_def)

lemma trim_left0_decomp: "\<exists>k. s = replicate k CHR ''0'' @ trim_left0 s"
proof (induction s)
  case Nil
  then show ?case by (simp add: trim_left0_def)
next
  case (Cons c s)
  then obtain k where k: "s = replicate k CHR ''0'' @ trim_left0 s" by blast
  show ?case
  proof (cases "c = CHR ''0''")
    case True
    with k have "c # s = replicate (Suc k) CHR ''0'' @ trim_left0 (c # s)"
      by (simp add: trim_left0_def)
    then show ?thesis by blast
  next
    case False
    then have "c # s = replicate 0 CHR ''0'' @ trim_left0 (c # s)" by (simp add: trim_left0_def)
    then show ?thesis by blast
  qed
qed

lemma trim_right0_decomp: "\<exists>k. s = trim_right0 s @ replicate k CHR ''0''"
proof -
  obtain k where "rev s = replicate k CHR ''0'' @ trim_left0 (rev s)"
    using trim_left0_decomp by blast
  then have "s = rev (trim_left0 (rev s)) @ replicate k CHR ''0''"
    by (metis rev_append rev_replicate rev_rev_ident)
  then show ?thesis by (auto simp: trim_right0_def trim_left0_def)
qed

lemma trim_right0_last: "trim_right0 s \<noteq> [] \<Longrightarrow> last (trim_right0 s) \<noteq> CHR ''0''"
  using hd_dropWhile [of "\<lambda>c. c = CHR ''0''" "rev s"] by (simp add: trim_right0_def last_rev)

lemma trim_right0_keep: "s = [] \<or> last s \<noteq> CHR ''0'' \<Longrightarrow> trim_right0 s = s"
  by (cases s rule: rev_cases) (auto simp: trim_right0_def)

lemma length_trim_right0: "length (trim_right0 s) \<le> length s"
  by (metis length_append le_add1 trim_right0_decomp)

lemma all_digits_trim_right0 [simp]: "all_digits s \<Longrightarrow> all_digits (trim_right0 s)"
  by (metis all_digits_append trim_right0_decomp)

lemma trim_left0_canonical:
  "canonical_nat s \<Longrightarrow> (if trim_left0 s = [] then ''0'' else trim_left0 s) = s"
  by (cases s) (auto simp: canonical_nat_def trim_left0_def)

subsection \<open>64-bit arithmetic\<close>

definition saturate64 :: "int \<Rightarrow> int" where
  "saturate64 x = max (- (2 ^ 63)) (min (2 ^ 63 - 1) x)"

definition wrap64 :: "int \<Rightarrow> int" where
  "wrap64 x = (x + 2 ^ 63) mod 2 ^ 64 - 2 ^ 63"

lemma wrap64_id: "- (2 ^ 63) \<le> x \<Longrightarrow> x < 2 ^ 63 \<Longrightarrow> wrap64 x = x"
  by (simp add: wrap64_def)

subsection \<open>Dates\<close>

text \<open>The strings that \<^verbatim>\<open>time.Parse("2006-01-02", s)\<close> accepts.\<close>

definition leap_year :: "nat \<Rightarrow> bool" where
  "leap_year y = (y mod 4 = 0 \<and> (y mod 100 \<noteq> 0 \<or> y mod 400 = 0))"

definition days_in :: "nat \<Rightarrow> nat \<Rightarrow> nat" where
  "days_in month y =
     (if month = 2 then (if leap_year y then 29 else 28)
      else if month \<in> {4, 6, 9, 11} then 30 else 31)"

definition parses_date :: "string \<Rightarrow> bool" where
  "parses_date s =
     (length s = 10 \<and> s ! 4 = CHR ''-'' \<and> s ! 7 = CHR ''-''
      \<and> all_digits (take 4 s) \<and> all_digits (take 2 (drop 5 s)) \<and> all_digits (drop 8 s)
      \<and> (let y = digits_val (take 4 s); mo = digits_val (take 2 (drop 5 s)); d = digits_val (drop 8 s)
         in 1 \<le> mo \<and> mo \<le> 12 \<and> 1 \<le> d \<and> d \<le> days_in mo y))"

text \<open>The Gregorian date, as year, month and day, of a number of days since 0001-01-01.\<close>

fun month_walk :: "nat list \<Rightarrow> nat \<Rightarrow> nat \<Rightarrow> nat \<times> nat" where
  "month_walk [] y yd = (12, yd + 1)"
| "month_walk (mo # mos) y yd =
     (if yd < days_in mo y then (mo, yd + 1) else month_walk mos y (yd - days_in mo y))"

definition year_day :: "nat \<Rightarrow> nat \<times> nat" where
  "year_day n =
     (let n1 = n mod 146097; c = min 3 (n1 div 36524); n2 = n1 - 36524 * c;
          q = n2 div 1461; n3 = n2 mod 1461; k = min 3 (n3 div 365) in
      (400 * (n div 146097) + 100 * c + 4 * q + k + 1, n3 - 365 * k))"

definition date_of_days :: "nat \<Rightarrow> nat \<times> nat \<times> nat" where
  "date_of_days n =
     (let (y, yd) = year_day n;
          (mo, d) = month_walk [1, 2, 3, 4, 5, 6, 7, 8, 9, 10, 11, 12] y yd in
      (y, mo, d))"

definition pad_left :: "nat \<Rightarrow> string \<Rightarrow> string" where
  "pad_left w s = replicate (w - length s) CHR ''0'' @ s"

subsection \<open>Go's \<open>strings.ToLower\<close>, \<open>Split\<close> and \<open>Join\<close>\<close>

text \<open>
  \<open>to_lower\<close> is \<^verbatim>\<open>strings.ToLower\<close> as far as a comparison with an ASCII text can tell: besides the
  ASCII capitals only U+0130 and U+212A have an ASCII lower case; the bytes of every other rune are kept
  and stay outside ASCII.
\<close>

definition lower_byte :: "char \<Rightarrow> char" where
  "lower_byte c = (if 65 \<le> (of_char c :: nat) \<and> (of_char c :: nat) \<le> 90 then char_of ((of_char c :: nat) + 32) else c)"

fun to_lower :: "string \<Rightarrow> string" where
  "to_lower [] = []"
| "to_lower (c # s) =
     (if c = CHR 0xC4 \<and> s \<noteq> [] \<and> hd s = CHR 0xB0 then CHR ''i'' # to_lower (tl s)
      else if c = CHR 0xE2 \<and> take 2 s = [CHR 0x84, CHR 0xAA] then CHR ''k'' # to_lower (drop 2 s)
      else lower_byte c # to_lower s)"

fun split_on :: "char \<Rightarrow> string \<Rightarrow> string list" where
  "split_on x [] = [[]]"
| "split_on x (c # s) =
     (if c = x then [] # split_on x s
      else case split_on x s of [] \<Rightarrow> [[c]] | p # ps \<Rightarrow> (c # p) # ps)"

fun join_with :: "string \<Rightarrow> string list \<Rightarrow> string" where
  "join_with x [] = []"
| "join_with x [p] = p"
| "join_with x (p # q # ps) = p @ x @ join_with x (q # ps)"

lemma split_on_nonempty [simp]: "split_on x s \<noteq> []"
  by (cases s) (auto split: list.splits)

lemma split_on_piece: "x \<notin> set p \<Longrightarrow> split_on x p = [p]"
  by (induction p) auto

lemma split_on_append: "x \<notin> set p \<Longrightarrow> split_on x (p @ x # s) = p # split_on x s"
  by (induction p) auto

lemma split_join:
  assumes "ps \<noteq> []" and "\<forall>p \<in> set ps. x \<notin> set p"
  shows "split_on x (join_with [x] ps) = ps"
  using assms
proof (induction ps rule: induct_list012)
  case (3 p q ps)
  then show ?case by (simp add: split_on_append)
qed (simp_all add: split_on_piece)

lemma split_on_free: "p \<in> set (split_on x s) \<Longrightarrow> x \<notin> set p"
proof (induction s arbitrary: p)
  case (Cons c s)
  then show ?case by (cases "split_on x s") (auto split: if_splits)
qed simp

subsection \<open>Chains of checks\<close>

text \<open>A Go function that returns the first error of a sequence of checks.\<close>

lemma first_error_None [simp]:
  "(case x of None \<Rightarrow> y | Some e \<Rightarrow> Some e) = None \<longleftrightarrow> x = None \<and> y = None"
  by (cases x) simp_all

end
