(* ===== verification/Amount.thy ===== *)
theory Amount
  imports Prelude
begin

text \<open>
  Exact decimal arithmetic of the gateway's money: \<^verbatim>\<open>src/internal/billing/amount.go\<close>, and the
  amount helpers of \<^verbatim>\<open>src/internal/store/billing.go\<close> (\<^verbatim>\<open>billingRat\<close> to \<^verbatim>\<open>billingPositive\<close>).
  Amounts are Go strings; a \<^verbatim>\<open>big.Rat\<close> is a \<^typ>\<open>rat\<close>, whose \<^const>\<open>quotient_of\<close> is the
  normalised numerator and denominator that \<^verbatim>\<open>Num\<close> and \<^verbatim>\<open>Denom\<close> return.
\<close>

subsection \<open>Constants and errors\<close>

abbreviation AmountScale :: nat where "AmountScale \<equiv> 12"
abbreviation InputScale :: nat where "InputScale \<equiv> 6"
abbreviation RateScale :: nat where "RateScale \<equiv> 12"
abbreviation maxIntegerDigits :: nat where "maxIntegerDigits \<equiv> 18"

text \<open>\<open>ErrContext msg e\<close> is \<^verbatim>\<open>fmt.Errorf("msg: %w", e)\<close>.\<close>

datatype decimal_error = ErrInvalidDecimal | ErrContext string decimal_error

subsection \<open>Decimal literals\<close>

text \<open>
  An unsigned decimal literal, digits with an optional non-empty fraction, split at its point.
\<close>

definition split_decimal :: "string \<Rightarrow> (string \<times> string) option" where
  "split_decimal s =
     (let i = takeWhile is_digit s; r = dropWhile is_digit s in
      if i = [] then None
      else case r of
        [] \<Rightarrow> Some (i, [])
      | c # f \<Rightarrow> if c = CHR ''.'' \<and> f \<noteq> [] \<and> all_digits f then Some (i, f) else None)"

text \<open>
  \<^verbatim>\<open>decimalPattern.FindStringSubmatch\<close>: the whole string matches
  \<^verbatim>\<open>^(0|[1-9][0-9]*)(?:\.([0-9]+))?$\<close>, and the result holds the two groups (an absent second
  group is the empty string).
\<close>

definition decimalPattern :: "string \<Rightarrow> (string \<times> string) option" where
  "decimalPattern s =
     (case split_decimal s of
        None \<Rightarrow> None
      | Some (i, f) \<Rightarrow> if i = ''0'' \<or> hd i \<noteq> CHR ''0'' then Some (i, f) else None)"

text \<open>The value of a decimal literal.\<close>

definition dec_rat :: "string \<Rightarrow> string \<Rightarrow> rat" where
  "dec_rat i f = of_nat (digits_val (i @ f)) / 10 ^ length f"

text \<open>
  \<^verbatim>\<open>big.Rat.SetString\<close> on the strings the gateway gives it: results of \<^verbatim>\<open>parseBounded\<close>, of
  \<^verbatim>\<open>FloatString\<close> and of PostgreSQL's \<^verbatim>\<open>numeric::text\<close>, which are decimal literals with an
  optional sign. (Go also reads fractions and exponents, which none of these produce.)
\<close>

definition rat_SetString :: "string \<Rightarrow> rat option" where
  "rat_SetString s =
     (case s of
        [] \<Rightarrow> None
      | c # t \<Rightarrow>
          if c = CHR ''-'' then map_option (\<lambda>(i, f). - dec_rat i f) (split_decimal t)
          else if c = CHR ''+'' then map_option (\<lambda>(i, f). dec_rat i f) (split_decimal t)
          else map_option (\<lambda>(i, f). dec_rat i f) (split_decimal s))"

abbreviation amt :: "string \<Rightarrow> rat" where
  "amt s \<equiv> the (rat_SetString s)"

subsection \<open>Parsing\<close>

definition parseBounded :: "string \<Rightarrow> nat \<Rightarrow> bool \<Rightarrow> bool \<Rightarrow> decimal_error + string" where
  "parseBounded value scale signed allowZero =
     (if value = [] \<or> trim_space value \<noteq> value then Inl ErrInvalidDecimal
      else
        let minus = (hd value = CHR ''-''); plus = (\<not> minus \<and> hd value = CHR ''+'') in
        if minus \<and> \<not> signed then Inl ErrInvalidDecimal
        else if plus \<and> \<not> signed then Inl ErrInvalidDecimal
        else
          let negative = minus; unsigned = (if minus \<or> plus then tl value else value) in
          case decimalPattern unsigned of
            None \<Rightarrow> Inl ErrInvalidDecimal
          | Some (m1, m2) \<Rightarrow>
              if length m1 > maxIntegerDigits \<or> length m2 > scale then Inl ErrInvalidDecimal
              else
                let trimmed = trim_left0 m1;
                    integer = (if trimmed = [] then ''0'' else trimmed);
                    fraction = trim_right0 m2;
                    canonical = (if fraction \<noteq> [] then integer @ ''.'' @ fraction else integer) in
                if canonical = ''0'' then (if allowZero then Inr canonical else Inl ErrInvalidDecimal)
                else Inr (if negative then CHR ''-'' # canonical else canonical))"

definition ParseInput :: "string \<Rightarrow> bool \<Rightarrow> bool \<Rightarrow> decimal_error + string" where
  "ParseInput value signed allowZero = parseBounded value InputScale signed allowZero"

definition ParseRate :: "string \<Rightarrow> decimal_error + string" where
  "ParseRate value = parseBounded value RateScale False False"

definition ParseMultiplier :: "string \<Rightarrow> decimal_error + string" where
  "ParseMultiplier value = parseBounded value AmountScale False False"

definition ParsePrice :: "string \<Rightarrow> decimal_error + string" where
  "ParsePrice value = parseBounded value AmountScale False True"

subsection \<open>Rounding and formatting\<close>

definition scaledIntegerString :: "int \<Rightarrow> nat \<Rightarrow> string" where
  "scaledIntegerString value scale =
     (let negative = (value < 0);
          digits0 = show_nat (nat \<bar>value\<bar>);
          digits = (if length digits0 \<le> scale
                    then replicate (scale - length digits0 + 1) CHR ''0'' @ digits0 else digits0);
          formatted = take (length digits - scale) digits @ ''.'' @ drop (length digits - scale) digits in
      if negative \<and> value \<noteq> 0 then CHR ''-'' # formatted else formatted)"

definition roundFixed :: "rat \<Rightarrow> nat \<Rightarrow> string" where
  "roundFixed value scale =
     (let (num, denom) = quotient_of value;
          scaledNumerator = num * 10 ^ scale;
          quotient = go_quo scaledNumerator denom;
          remainder = go_rem scaledNumerator denom;
          quotient' = (if remainder \<noteq> 0 \<and> 2 * \<bar>remainder\<bar> \<ge> denom
                       then (if num < 0 then quotient - 1 else quotient + 1) else quotient) in
      scaledIntegerString quotient' scale)"

definition roundAmount :: "rat \<Rightarrow> decimal_error + string" where
  "roundAmount value =
     (let result = roundFixed value AmountScale in
      case parseBounded result AmountScale True True of
        Inl e \<Rightarrow> Inl (ErrContext ''amount exceeds NUMERIC(30,12)'' ErrInvalidDecimal)
      | Inr c \<Rightarrow> Inr result)"

definition multiplyCostAndRound :: "rat \<Rightarrow> string \<Rightarrow> decimal_error + string" where
  "multiplyCostAndRound tot multiplier =
     (case ParseMultiplier multiplier of
        Inl e \<Rightarrow> Inl (ErrContext ''invalid pricing multiplier'' e)
      | Inr canonical \<Rightarrow> roundAmount (tot * amt canonical))"

definition MultiplyToAmount :: "string \<Rightarrow> string \<Rightarrow> decimal_error + string" where
  "MultiplyToAmount left right =
     (case ParseInput left False False of
        Inl e \<Rightarrow> Inl (ErrContext ''invalid amount'' e)
      | Inr l \<Rightarrow>
          (case ParseRate right of
             Inl e \<Rightarrow> Inl (ErrContext ''invalid rate'' e)
           | Inr r \<Rightarrow> roundAmount (amt l * amt r)))"

subsection \<open>Request costs\<close>

text \<open>The loop that parses the price strings, stopping at the first invalid one.\<close>

fun parsePrices :: "string list \<Rightarrow> decimal_error + rat list" where
  "parsePrices [] = Inr []"
| "parsePrices (value # values) =
     (case ParsePrice value of
        Inl e \<Rightarrow> Inl (ErrContext ''invalid price'' e)
      | Inr canonical \<Rightarrow>
          (case parsePrices values of
             Inl e \<Rightarrow> Inl e
           | Inr prices \<Rightarrow> Inr (amt canonical # prices)))"

definition CalculateCostWithMultiplier ::
  "go_int64 \<Rightarrow> go_int64 \<Rightarrow> go_int64 \<Rightarrow> string \<Rightarrow> string \<Rightarrow> string \<Rightarrow> string \<Rightarrow> decimal_error + string" where
  "CalculateCostWithMultiplier inputTokens cachedInputTokens outputTokens
       inputPrice cachedPrice outputPrice multiplier =
     (if inputTokens < 0 \<or> cachedInputTokens < 0 \<or> outputTokens < 0 \<or> cachedInputTokens > inputTokens
      then Inl (ErrContext ''invalid token counts'' ErrInvalidDecimal)
      else case parsePrices [inputPrice, cachedPrice, outputPrice] of
        Inl e \<Rightarrow> Inl e
      | Inr prices \<Rightarrow>
          (let uncached = inputTokens - cachedInputTokens;
               tot = of_int uncached * prices ! 0 + of_int cachedInputTokens * prices ! 1
                       + of_int outputTokens * prices ! 2 in
           multiplyCostAndRound (tot / 1000000) multiplier))"

definition CalculateCost ::
  "go_int64 \<Rightarrow> go_int64 \<Rightarrow> go_int64 \<Rightarrow> string \<Rightarrow> string \<Rightarrow> string \<Rightarrow> decimal_error + string" where
  "CalculateCost inputTokens cachedInputTokens outputTokens inputPrice cachedPrice outputPrice =
     CalculateCostWithMultiplier inputTokens cachedInputTokens outputTokens
       inputPrice cachedPrice outputPrice ''1''"

definition CalculateCostV2WithMultiplier ::
  "go_int64 \<Rightarrow> go_int64 \<Rightarrow> go_int64 \<Rightarrow> go_int64 \<Rightarrow> string \<Rightarrow> string \<Rightarrow> string \<Rightarrow> string \<Rightarrow> string \<Rightarrow> string
   \<Rightarrow> decimal_error + string" where
  "CalculateCostV2WithMultiplier inputTokens cachedInputTokens cacheWriteTokens outputTokens
       cacheWriteMode inputPrice cachedPrice cacheWritePrice outputPrice multiplier =
     (if inputTokens < 0 \<or> cachedInputTokens < 0 \<or> cacheWriteTokens < 0 \<or> outputTokens < 0
         \<or> cachedInputTokens > inputTokens
      then Inl (ErrContext ''invalid token counts'' ErrInvalidDecimal)
      else if cacheWriteMode \<noteq> ''separate'' \<and> cacheWriteMode \<noteq> ''included_in_input''
      then Inl (ErrContext ''invalid cache write mode'' ErrInvalidDecimal)
      else if cacheWriteMode = ''separate'' \<and> cacheWriteTokens > inputTokens - cachedInputTokens
      then Inl (ErrContext ''invalid cache write token counts'' ErrInvalidDecimal)
      else case parsePrices [inputPrice, cachedPrice, cacheWritePrice, outputPrice] of
        Inl e \<Rightarrow> Inl e
      | Inr prices \<Rightarrow>
          (let ordinary0 = inputTokens - cachedInputTokens;
               ordinary = (if cacheWriteMode = ''separate'' then ordinary0 - cacheWriteTokens else ordinary0);
               tot1 = of_int ordinary * prices ! 0 + of_int cachedInputTokens * prices ! 1;
               tot2 = (if cacheWriteMode = ''separate''
                         then tot1 + of_int cacheWriteTokens * prices ! 2 else tot1);
               tot = tot2 + of_int outputTokens * prices ! 3 in
           multiplyCostAndRound (tot / 1000000) multiplier))"

definition CalculateCostV2 ::
  "go_int64 \<Rightarrow> go_int64 \<Rightarrow> go_int64 \<Rightarrow> go_int64 \<Rightarrow> string \<Rightarrow> string \<Rightarrow> string \<Rightarrow> string \<Rightarrow> string
   \<Rightarrow> decimal_error + string" where
  "CalculateCostV2 inputTokens cachedInputTokens cacheWriteTokens outputTokens
       cacheWriteMode inputPrice cachedPrice cacheWritePrice outputPrice =
     CalculateCostV2WithMultiplier inputTokens cachedInputTokens cacheWriteTokens outputTokens
       cacheWriteMode inputPrice cachedPrice cacheWritePrice outputPrice ''1''"

definition CalculateCostV2TTLWithMultiplier ::
  "go_int64 \<Rightarrow> go_int64 \<Rightarrow> go_int64 \<Rightarrow> go_int64 \<Rightarrow> go_int64 \<Rightarrow> go_int64 \<Rightarrow> bool
   \<Rightarrow> string \<Rightarrow> string \<Rightarrow> string \<Rightarrow> string \<Rightarrow> string \<Rightarrow> string \<Rightarrow> decimal_error + string" where
  "CalculateCostV2TTLWithMultiplier inputTokens cachedInputTokens cacheWriteTokens
       cacheWrite5mTokens cacheWrite1hTokens outputTokens cacheWriteTTLPresent
       inputPrice cachedPrice cacheWrite5mPrice cacheWrite1hPrice outputPrice multiplier =
     (if inputTokens < 0 \<or> cachedInputTokens < 0 \<or> cacheWriteTokens < 0
         \<or> cacheWrite5mTokens < 0 \<or> cacheWrite1hTokens < 0 \<or> outputTokens < 0
         \<or> cachedInputTokens > inputTokens \<or> cacheWriteTokens > inputTokens - cachedInputTokens
      then Inl (ErrContext ''invalid token counts'' ErrInvalidDecimal)
      else if cacheWriteTTLPresent
              \<and> (cacheWrite5mTokens > cacheWriteTokens
                 \<or> cacheWrite1hTokens \<noteq> cacheWriteTokens - cacheWrite5mTokens)
      then Inl (ErrContext ''invalid cache write TTL totals'' ErrInvalidDecimal)
      else if \<not> cacheWriteTTLPresent \<and> (cacheWrite5mTokens \<noteq> 0 \<or> cacheWrite1hTokens \<noteq> 0)
      then Inl (ErrContext ''unobserved cache write TTL counts'' ErrInvalidDecimal)
      else case parsePrices [inputPrice, cachedPrice, cacheWrite5mPrice, cacheWrite1hPrice, outputPrice] of
        Inl e \<Rightarrow> Inl e
      | Inr prices \<Rightarrow>
          (let tot1 = of_int (inputTokens - cachedInputTokens - cacheWriteTokens) * prices ! 0
                        + of_int cachedInputTokens * prices ! 1;
               tot2 = (if cacheWriteTTLPresent
                         then tot1 + of_int cacheWrite5mTokens * prices ! 2
                              + of_int cacheWrite1hTokens * prices ! 3
                         else let maximum = (if prices ! 3 > prices ! 2 then prices ! 3 else prices ! 2) in
                              tot1 + of_int cacheWriteTokens * maximum);
               tot = tot2 + of_int outputTokens * prices ! 4 in
           multiplyCostAndRound (tot / 1000000) multiplier))"

subsection \<open>Amount helpers of the store\<close>

text \<open>
  \<^verbatim>\<open>Rat.FloatString(prec)\<close> of Go's library: the decimal with \<open>prec\<close> fraction digits, the last
  rounded half away from zero; its \<^verbatim>\<open>-\<close> sign is kept even when the digits are all zero.
\<close>

definition FloatString :: "rat \<Rightarrow> nat \<Rightarrow> string" where
  "FloatString x prec =
     (let (a, b) = quotient_of x;
          q = \<bar>a\<bar> div b;
          r = (\<bar>a\<bar> mod b) * 10 ^ prec;
          r' = (if 2 * (r mod b) \<ge> b then r div b + 1 else r div b);
          (q', r'') = (if r' \<ge> 10 ^ prec then (q + 1, r' - 10 ^ prec) else (q, r'));
          frac = show_nat (nat r'') in
      (if a < 0 then ''-'' else []) @ show_nat (nat q') @ ''.'' @
        replicate (prec - length frac) CHR ''0'' @ frac)"

datatype store_amount_error = InvalidStoredAmount

definition billingRat :: "string \<Rightarrow> store_amount_error + rat" where
  "billingRat value = (case rat_SetString value of None \<Rightarrow> Inl InvalidStoredAmount | Some r \<Rightarrow> Inr r)"

definition billingMin :: "string \<Rightarrow> string \<Rightarrow> store_amount_error + string" where
  "billingMin left right =
     (case billingRat left of Inl e \<Rightarrow> Inl e | Inr l \<Rightarrow>
      (case billingRat right of Inl e \<Rightarrow> Inl e | Inr r \<Rightarrow>
         Inr (FloatString (if l > r then r else l) AmountScale)))"

definition billingSubtract :: "string \<Rightarrow> string \<Rightarrow> store_amount_error + string" where
  "billingSubtract left right =
     (case billingRat left of Inl e \<Rightarrow> Inl e | Inr l \<Rightarrow>
      (case billingRat right of Inl e \<Rightarrow> Inl e | Inr r \<Rightarrow> Inr (FloatString (l - r) AmountScale)))"

definition billingAdd :: "string \<Rightarrow> string \<Rightarrow> store_amount_error + string" where
  "billingAdd left right =
     (case billingRat left of Inl e \<Rightarrow> Inl e | Inr l \<Rightarrow>
      (case billingRat right of Inl e \<Rightarrow> Inl e | Inr r \<Rightarrow> Inr (FloatString (l + r) AmountScale)))"

definition billingPositive :: "string \<Rightarrow> bool" where
  "billingPositive value = (case rat_SetString value of None \<Rightarrow> False | Some r \<Rightarrow> r > 0)"

section \<open>Decimal literals and their values\<close>

definition dec_literal :: "string \<Rightarrow> string \<Rightarrow> string" where
  "dec_literal i f = (if f = [] then i else i @ ''.'' @ f)"

lemma split_decimal_literal [simp]:
  "all_digits i \<Longrightarrow> i \<noteq> [] \<Longrightarrow> all_digits f \<Longrightarrow> split_decimal (dec_literal i f) = Some (i, f)"
  by (simp add: split_decimal_def dec_literal_def)

lemma split_decimal_SomeD:
  assumes "split_decimal s = Some (i, f)"
  shows "all_digits i \<and> i \<noteq> [] \<and> all_digits f \<and> s = dec_literal i f"
proof -
  obtain i' r where ir: "takeWhile is_digit s = i'" "dropWhile is_digit s = r" by blast
  then have s: "s = i' @ r" and i': "all_digits i'"
    by (metis takeWhile_dropWhile_id, metis all_digits_takeWhile)
  have "i' \<noteq> [] \<and> (case r of [] \<Rightarrow> i = i' \<and> f = []
      | c # f' \<Rightarrow> c = CHR ''.'' \<and> f' \<noteq> [] \<and> all_digits f' \<and> i = i' \<and> f = f')"
    using assms unfolding split_decimal_def Let_def ir
    by (auto split: if_splits list.splits)
  with s i' show ?thesis by (auto simp: dec_literal_def split: list.splits)
qed

lemma decimalPattern_literal:
  "canonical_nat i \<Longrightarrow> all_digits f \<Longrightarrow> decimalPattern (dec_literal i f) = Some (i, f)"
  by (auto simp: decimalPattern_def canonical_nat_def)

lemma decimalPattern_SomeD:
  "decimalPattern s = Some (i, f) \<Longrightarrow> canonical_nat i \<and> all_digits f \<and> s = dec_literal i f"
  by (auto simp: decimalPattern_def canonical_nat_def dest!: split_decimal_SomeD
      split: option.splits if_splits)

lemma dec_literal_ends:
  assumes "all_digits i" and "i \<noteq> []" and "all_digits f"
  shows "dec_literal i f \<noteq> []" and "is_digit (hd (dec_literal i f))" and "is_digit (last (dec_literal i f))"
  using assms by (auto simp: dec_literal_def all_digits_set)

lemma rat_SetString_literal:
  assumes "all_digits i" and "i \<noteq> []" and "all_digits f"
  shows "rat_SetString (dec_literal i f) = Some (dec_rat i f)"
    and "rat_SetString (CHR ''-'' # dec_literal i f) = Some (- dec_rat i f)"
    and "rat_SetString (CHR ''+'' # dec_literal i f) = Some (dec_rat i f)"
proof -
  obtain c t where ct: "dec_literal i f = c # t" and c: "is_digit c"
    using dec_literal_ends [OF assms] by (cases "dec_literal i f") auto
  then have "c \<noteq> CHR ''-''" "c \<noteq> CHR ''+''" by auto
  then show "rat_SetString (dec_literal i f) = Some (dec_rat i f)"
    using assms ct split_decimal_literal [OF assms] by (simp add: rat_SetString_def)
qed (use assms in \<open>simp_all add: rat_SetString_def\<close>)

lemma dec_rat_trim_right0 [simp]: "dec_rat i (trim_right0 f) = dec_rat i f"
proof -
  obtain k where k: "f = trim_right0 f @ replicate k CHR ''0''" using trim_right0_decomp by blast
  have "dec_rat i (trim_right0 f @ replicate k CHR ''0'') = dec_rat i (trim_right0 f)"
    by (simp add: dec_rat_def power_add flip: append_assoc)
  with k show ?thesis by simp
qed

lemma dec_rat_nonneg [simp]: "0 \<le> dec_rat i f"
  by (simp add: dec_rat_def)

lemma dec_rat_less:
  assumes "all_digits i" and "all_digits f" and "length i \<le> k"
  shows "dec_rat i f < 10 ^ k"
proof -
  have "digits_val (i @ f) < 10 ^ length (i @ f)" using assms by (intro digits_val_less) simp
  also have "\<dots> \<le> 10 ^ (k + length f)" using assms by (intro power_increasing) simp_all
  finally have "of_nat (digits_val (i @ f)) < (of_nat (10 ^ (k + length f)) :: rat)"
    by (simp only: of_nat_less_iff)
  then show ?thesis by (simp add: dec_rat_def field_simps power_add)
qed

text \<open>A literal without superfluous zeros is determined by its value.\<close>

lemma dec_rat_inj_aux:
  assumes i: "canonical_nat i" "canonical_nat j" and f: "all_digits f" "all_digits g"
    and z: "g = [] \<or> last g \<noteq> CHR ''0''" and eq: "dec_rat i f = dec_rat j g"
    and len: "length f \<le> length g"
  shows "i = j \<and> f = g"
proof -
  define k where "k = length g - length f"
  have glen: "length g = length f + k" using len by (simp add: k_def)
  have "of_nat (digits_val (i @ f) * 10 ^ k) = (of_nat (digits_val (j @ g)) :: rat)"
    using eq by (simp add: dec_rat_def glen power_add field_simps)
  then have val: "digits_val (i @ f) * 10 ^ k = digits_val (j @ g)"
    by (simp only: of_nat_eq_iff)
  let ?f = "f @ replicate k CHR ''0''"
  have lf: "length ?f = length g" by (simp add: glen)
  have sum: "digits_val i * 10 ^ length g + digits_val ?f = digits_val j * 10 ^ length g + digits_val g"
    using val by (simp add: digits_simps glen power_add algebra_simps)
  have lt: "digits_val ?f < 10 ^ length g" "digits_val g < 10 ^ length g"
    using f lf digits_val_less [of ?f] digits_val_less [of g] by auto
  have "(digits_val i * 10 ^ length g + digits_val ?f) div 10 ^ length g = digits_val i"
    "(digits_val j * 10 ^ length g + digits_val g) div 10 ^ length g = digits_val j"
    using lt by simp_all
  with sum have ij: "digits_val i = digits_val j" by simp
  then have "i = j" using canonical_nat_unique [OF i] by simp
  moreover have fg: "?f = g"
    using f lf sum ij by (intro digits_val_inj_length) auto
  moreover have "k = 0"
  proof (rule ccontr)
    assume "k \<noteq> 0"
    then obtain m where "k = Suc m" by (cases k) auto
    then have "last ?f = CHR ''0''" "?f \<noteq> []" by (simp_all add: replicate_append_same [symmetric])
    with fg z show False by auto
  qed
  ultimately show ?thesis by simp
qed

lemma dec_rat_inj:
  assumes "canonical_nat i" "canonical_nat j" "all_digits f" "all_digits g"
    and "f = [] \<or> last f \<noteq> CHR ''0''" "g = [] \<or> last g \<noteq> CHR ''0''"
    and "dec_rat i f = dec_rat j g"
  shows "i = j \<and> f = g"
  using assms dec_rat_inj_aux [of i j f g] dec_rat_inj_aux [of j i g f]
  by (cases "length f \<le> length g") auto

section \<open>What \<open>parseBounded\<close> accepts and returns\<close>

definition sign_strings :: "string set" where
  "sign_strings = {[], ''-'', ''+''}"

definition parsed_form :: "string \<Rightarrow> string \<Rightarrow> string \<Rightarrow> string" where
  "parsed_form sign i f =
     (let body = dec_literal i (trim_right0 f) in
      if body \<noteq> ''0'' \<and> sign = ''-'' then CHR ''-'' # body else body)"

lemma parseBounded_intro:
  assumes "sign \<in> sign_strings" and "sign \<noteq> [] \<longrightarrow> signed" and "canonical_nat i" and "all_digits f"
    and "length i \<le> 18" and "length f \<le> scale"
  shows "parseBounded (sign @ dec_literal i f) scale signed allowZero =
    (if dec_literal i (trim_right0 f) = ''0'' \<and> \<not> allowZero then Inl ErrInvalidDecimal
     else Inr (parsed_form sign i f))"
proof -
  have di: "all_digits i" "i \<noteq> []" using assms by (simp_all add: canonical_nat_def)
  note ends = dec_literal_ends [OF di assms(4)]
  let ?v = "sign @ dec_literal i f"
  have "visible_ascii (hd ?v)"
    using assms(1) ends digit_visible by (auto simp: sign_strings_def visible_ascii_def hd_append)
  moreover have "visible_ascii (last ?v)" "?v \<noteq> []"
    using ends digit_visible by simp_all
  ultimately have trim: "trim_space ?v = ?v" by (simp add: go_strings)
  have hd: "hd (dec_literal i f) \<noteq> CHR ''-''" "hd (dec_literal i f) \<noteq> CHR ''+''"
    using ends(2) by (auto simp: is_digit_def)
  define j where "j = trim_left0 i"
  have j: "(if j = [] then ''0'' else j) = i"
    unfolding j_def by (rule trim_left0_canonical [OF assms(3)])
  define D where "D = dec_literal i f"
  have D: "decimalPattern D = Some (i, f)" "D \<noteq> []" "hd D \<noteq> CHR ''-''" "hd D \<noteq> CHR ''+''"
    "trim_space (sign @ D) = sign @ D"
    using decimalPattern_literal [OF assms(3,4)] ends(1) hd trim by (simp_all add: D_def)
  consider "sign = []" | "sign = ''-''" | "sign = ''+''" using assms(1) by (auto simp: sign_strings_def)
  then have "parseBounded (sign @ D) scale signed allowZero =
    (if dec_literal i (trim_right0 f) = ''0'' \<and> \<not> allowZero then Inl ErrInvalidDecimal
     else Inr (parsed_form sign i f))"
    by cases (use D assms(2,5,6) j in \<open>simp_all add: parseBounded_def parsed_form_def Let_def
      dec_literal_def flip: j_def\<close>)
  then show ?thesis by (simp add: D_def)
qed

lemma parseBounded_elim:
  assumes "parseBounded x scale signed allowZero = Inr c"
  obtains sign i f where "sign \<in> sign_strings" "sign \<noteq> [] \<longrightarrow> signed" "canonical_nat i" "all_digits f"
    "length i \<le> 18" "length f \<le> scale" "x = sign @ dec_literal i f"
    "dec_literal i (trim_right0 f) = ''0'' \<longrightarrow> allowZero" "c = parsed_form sign i f"
proof -
  define sign where "sign = (if hd x = CHR ''-'' then ''-'' else if hd x = CHR ''+'' then ''+'' else [])"
  define u where "u = (if hd x = CHR ''-'' \<or> hd x = CHR ''+'' then tl x else x)"
  have ne: "x \<noteq> []" using assms by (auto simp: parseBounded_def)
  then have v: "x = sign @ u" by (cases x) (auto simp: sign_def u_def)
  have ss: "sign \<in> sign_strings" by (simp add: sign_def sign_strings_def)
  have sg: "sign \<noteq> [] \<longrightarrow> signed"
    using assms by (auto simp: parseBounded_def sign_def Let_def split: if_splits)
  obtain i f where p: "decimalPattern u = Some (i, f)" and l: "length i \<le> 18" "length f \<le> scale"
    using assms ne
    by (auto simp: parseBounded_def u_def Let_def split: if_splits option.splits)
  from decimalPattern_SomeD [OF p] have c: "canonical_nat i" "all_digits f" and u: "u = dec_literal i f"
    by auto
  have eq: "parseBounded (sign @ dec_literal i f) scale signed allowZero = Inr c"
    using assms v u by simp
  show ?thesis
    using eq parseBounded_intro [OF ss sg c l, of allowZero]
    by (intro that [OF ss sg c l]) (auto simp: v u split: if_splits)
qed

lemma parsed_form_value:
  assumes "sign \<in> sign_strings" and "canonical_nat i" and "all_digits f"
  shows "rat_SetString (parsed_form sign i f) = Some (if sign = ''-'' then - dec_rat i f else dec_rat i f)"
    and "rat_SetString (sign @ dec_literal i f) = Some (if sign = ''-'' then - dec_rat i f else dec_rat i f)"
proof -
  have di: "all_digits i" "i \<noteq> []" using assms by (simp_all add: canonical_nat_def)
  note s1 = rat_SetString_literal [OF di assms(3)]
  note s2 = rat_SetString_literal [OF di all_digits_trim_right0 [OF assms(3)]]
  have zero: "dec_rat i f = 0" if "dec_literal i (trim_right0 f) = ''0''"
  proof -
    have "rat_SetString ''0'' = Some 0"
      using rat_SetString_literal(1) [of "''0''" "[]"]
      by (simp add: dec_literal_def dec_rat_def digits_val_Cons)
    with s2(1) that show ?thesis by simp
  qed
  show "rat_SetString (parsed_form sign i f) = Some (if sign = ''-'' then - dec_rat i f else dec_rat i f)"
    using s2 zero by (auto simp: parsed_form_def Let_def)
  show "rat_SetString (sign @ dec_literal i f) = Some (if sign = ''-'' then - dec_rat i f else dec_rat i f)"
    using assms(1) s1 by (auto simp: sign_strings_def)
qed

lemma parsed_form_reparse:
  assumes "sign \<in> sign_strings" "sign \<noteq> [] \<longrightarrow> signed" "canonical_nat i" "all_digits f"
    "length i \<le> 18" "length f \<le> scale" "dec_literal i (trim_right0 f) = ''0'' \<longrightarrow> allowZero"
  shows "parseBounded (parsed_form sign i f) scale signed allowZero = Inr (parsed_form sign i f)"
proof -
  let ?s = "if dec_literal i (trim_right0 f) \<noteq> ''0'' \<and> sign = ''-'' then ''-'' else []"
  have pf: "parsed_form sign i f = ?s @ dec_literal i (trim_right0 f)"
    by (simp add: parsed_form_def Let_def)
  have tr: "trim_right0 (trim_right0 f) = trim_right0 f"
    using trim_right0_keep trim_right0_last by blast
  have "?s \<in> sign_strings" "?s \<noteq> [] \<longrightarrow> signed" using assms by (auto simp: sign_strings_def)
  then have "parseBounded (?s @ dec_literal i (trim_right0 f)) scale signed allowZero =
      Inr (parsed_form ?s i (trim_right0 f))"
    using assms length_trim_right0 [of f] parseBounded_intro [of ?s signed i "trim_right0 f" scale allowZero]
    by (simp add: tr)
  moreover have "parsed_form ?s i (trim_right0 f) = parsed_form sign i f"
    by (simp add: parsed_form_def Let_def tr)
  ultimately show ?thesis using pf by simp
qed

section \<open>Rounding\<close>

text \<open>The specification: round to \<open>s\<close> decimal places, halves away from zero.\<close>

definition round_units :: "nat \<Rightarrow> rat \<Rightarrow> int" where
  "round_units s x = (if x < 0 then - \<lfloor>- x * 10 ^ s + 1 / 2\<rfloor> else \<lfloor>x * 10 ^ s + 1 / 2\<rfloor>)"

definition round_half_away :: "nat \<Rightarrow> rat \<Rightarrow> rat" where
  "round_half_away s x = of_int (round_units s x) / 10 ^ s"

lemma floor_half:
  fixes N d :: int
  assumes "0 < d"
  shows "\<lfloor>of_int N / of_int d + (1 / 2 :: rat)\<rfloor> = N div d + (if 2 * (N mod d) \<ge> d then 1 else 0)"
proof -
  have small: "(2 * r + d) div (2 * d) = (if 2 * r \<ge> d then 1 else 0)" if "0 \<le> r" "r < d" for r
    using that div_pos_geq [of "2 * d" "2 * r + d"] by (simp add: div_pos_pos_trivial)
  have "of_int N / of_int d + (1 / 2 :: rat) = of_int (2 * N + d) / of_int (2 * d)"
    using assms by (simp add: field_simps)
  then have "\<lfloor>of_int N / of_int d + (1 / 2 :: rat)\<rfloor> = (2 * N + d) div (2 * d)"
    by (simp only: floor_divide_of_int_eq)
  also have "2 * N + d = (2 * d) * (N div d) + (2 * (N mod d) + d)"
    using mult_div_mod_eq [of d N] by linarith
  also have "((2 * d) * (N div d) + (2 * (N mod d) + d)) div (2 * d)
      = N div d + (2 * (N mod d) + d) div (2 * d)"
    using assms by (subst div_mult_self4) simp_all
  also have "(2 * (N mod d) + d) div (2 * d) = (if 2 * (N mod d) \<ge> d then 1 else 0)"
    using assms by (intro small) simp_all
  finally show ?thesis .
qed

lemma roundFixed_eq: "roundFixed x s = scaledIntegerString (round_units s x) s"
proof -
  obtain n d where q: "quotient_of x = (n, d)" by (cases "quotient_of x")
  have d: "0 < d" and x: "x = of_int n / of_int d"
    using q quotient_of_denom_pos quotient_of_div by blast+
  have xneg: "(x < 0) = (n < 0)" using d by (simp add: x divide_less_0_iff)
  define N where "N = \<bar>n\<bar> * 10 ^ s"
  have N: "\<bar>x\<bar> * 10 ^ s = of_int N / of_int d"
    using d by (simp add: x N_def abs_mult)
  have fl: "\<lfloor>\<bar>x\<bar> * 10 ^ s + 1 / 2\<rfloor> = N div d + (if 2 * (N mod d) \<ge> d then 1 else 0)"
    using floor_half [OF d, of N] N by simp
  have absN: "\<bar>n * 10 ^ s\<bar> = N" by (simp add: N_def abs_mult)
  have quo: "go_quo (n * 10 ^ s) d = sgn n * (N div d)"
    using d absN by (simp add: go_quo_def sgn_mult)
  have nN: "n * 10 ^ s = sgn n * N"
    by (metis N_def mult.assoc mult_sgn_abs mult.commute)
  have rem: "go_rem (n * 10 ^ s) d = sgn n * (N mod d)"
  proof -
    have "go_rem (n * 10 ^ s) d = sgn n * N - d * (sgn n * (N div d))"
      by (simp only: go_rem_def quo) (simp only: nN)
    also have "\<dots> = sgn n * (N - d * (N div d))" by (simp add: algebra_simps)
    finally show ?thesis by (simp only: minus_mult_div_eq_mod)
  qed
  have absr: "\<bar>go_rem (n * 10 ^ s) d\<bar> = N mod d" if "n \<noteq> 0"
    using that d by (simp add: rem abs_mult abs_sgn_eq)
  have zero: "N = 0" if "n = 0" using that by (simp add: N_def)
  have "(if go_rem (n * 10 ^ s) d \<noteq> 0 \<and> 2 * \<bar>go_rem (n * 10 ^ s) d\<bar> \<ge> d
         then (if n < 0 then go_quo (n * 10 ^ s) d - 1 else go_quo (n * 10 ^ s) d + 1)
         else go_quo (n * 10 ^ s) d) = round_units s x"
  proof (cases "n = 0")
    case True
    then have "x = 0" by (simp add: x)
    moreover have "\<lfloor>1 / 2 :: rat\<rfloor> = 0" by linarith
    ultimately show ?thesis using True by (simp add: go_quo_def go_rem_def round_units_def)
  next
    case False
    then show ?thesis
      using fl absr xneg d by (auto simp: quo rem round_units_def sgn_if abs_if)
  qed
  then show ?thesis by (simp add: roundFixed_def q Let_def)
qed

text \<open>The printed form of a scaled integer: sign, integer digits, point, \<open>s\<close> fraction digits.\<close>

lemma scaledIntegerString_form:
  assumes s: "0 < s"
  obtains i f where "canonical_nat i" "all_digits f" "length f = s"
    "scaledIntegerString v s = (if v < 0 then ''-'' else []) @ dec_literal i f"
    "dec_rat i f = of_int \<bar>v\<bar> / 10 ^ s"
    "(length i \<le> 18) = (\<bar>v\<bar> < 10 ^ (18 + s))"
proof -
  define n where "n = nat \<bar>v\<bar>"
  define d0 where "d0 = show_nat n"
  define ds where "ds = (if length d0 \<le> s then replicate (s - length d0 + 1) CHR ''0'' @ d0 else d0)"
  define i where "i = take (length ds - s) ds"
  define f where "f = drop (length ds - s) ds"
  have ad: "all_digits ds" by (simp add: ds_def d0_def)
  have len: "s < length ds" by (auto simp: ds_def)
  have app: "ds = i @ f" by (simp add: i_def f_def)
  have fl: "length f = s" using len by (simp add: f_def)
  have zeros: "digits_val (replicate k CHR ''0'') = 0" for k by (simp add: digits_val_eq_0)
  have dv: "digits_val ds = n"
    unfolding ds_def d0_def by (simp add: digits_val_append zeros digits_val_show_nat del: replicate_Suc)
  have can: "canonical_nat i"
  proof (cases "length d0 \<le> s")
    case True
    then have "length ds - s = 1" by (simp add: ds_def)
    then have "i = ''0''" using True by (simp add: i_def ds_def)
    then show ?thesis by (simp add: canonical_nat_def)
  next
    case False
    then have ds: "ds = d0" by (simp add: ds_def)
    have c: "canonical_nat d0" by (simp add: d0_def show_nat_canonical)
    have "d0 \<noteq> ''0''" using False s by auto
    moreover have "i \<noteq> []" "hd i = hd d0" using False ds len by (auto simp: i_def hd_take)
    ultimately show ?thesis using c ad app by (simp add: canonical_nat_def)
  qed
  have lit: "scaledIntegerString v s = (if v < 0 then ''-'' else []) @ dec_literal i f"
    using fl s unfolding scaledIntegerString_def Let_def n_def [symmetric] d0_def [symmetric]
      ds_def [symmetric] i_def [symmetric] f_def [symmetric]
    by (auto simp: dec_literal_def)
  have val: "dec_rat i f = of_int \<bar>v\<bar> / 10 ^ s"
  proof -
    have "of_nat n = (of_int \<bar>v\<bar> :: rat)" by (simp add: n_def of_nat_nat)
    then show ?thesis using dv fl by (simp add: dec_rat_def flip: app)
  qed
  have il: "length i = length ds - s" by (simp add: i_def)
  have "(length i \<le> 18) = (length d0 \<le> 18 + s)"
    by (auto simp: il ds_def)
  also have "\<dots> = (n < 10 ^ (18 + s))"
    unfolding d0_def by (rule length_show_nat) simp
  also have "\<dots> = (\<bar>v\<bar> < 10 ^ (18 + s))"
    by (simp add: n_def nat_less_iff)
  finally have "(length i \<le> 18) = (\<bar>v\<bar> < 10 ^ (18 + s))" .
  moreover have "all_digits f" using ad app by simp
  ultimately show ?thesis using that can fl lit val by blast
qed

lemma scaledIntegerString_value:
  assumes "0 < s"
  shows "rat_SetString (scaledIntegerString v s) = Some (of_int v / 10 ^ s)"
proof -
  obtain i f where "canonical_nat i" "all_digits f"
    and lit: "scaledIntegerString v s = (if v < 0 then ''-'' else []) @ dec_literal i f"
    and val: "dec_rat i f = of_int \<bar>v\<bar> / 10 ^ s"
    using scaledIntegerString_form [OF assms] by metis
  then show ?thesis
    using rat_SetString_literal [of i f] by (auto simp: canonical_nat_def lit val)
qed

lemma roundFixed_value:
  "0 < s \<Longrightarrow> rat_SetString (roundFixed x s) = Some (round_half_away s x)"
  by (simp add: roundFixed_eq scaledIntegerString_value round_half_away_def)

lemma round_units_bound: "\<bar>of_int (round_units s x) - x * 10 ^ s\<bar> \<le> 1 / 2"
proof (cases "x < 0")
  case True
  then show ?thesis
    using floor_correct [of "- x * 10 ^ s + 1 / 2"] unfolding round_units_def abs_le_iff by simp linarith
next
  case False
  then show ?thesis
    using floor_correct [of "x * 10 ^ s + 1 / 2"] unfolding round_units_def abs_le_iff by simp linarith
qed

lemma round_half_away_error: "\<bar>round_half_away s x - x\<bar> \<le> 1 / (2 * 10 ^ s)"
proof -
  have "round_half_away s x - x = (of_int (round_units s x) - x * 10 ^ s) / 10 ^ s"
    by (simp add: round_half_away_def field_simps)
  then have "\<bar>round_half_away s x - x\<bar> = \<bar>of_int (round_units s x) - x * 10 ^ s\<bar> / 10 ^ s"
    by (simp add: abs_divide)
  also have "\<dots> \<le> (1 / 2) / 10 ^ s" by (intro divide_right_mono round_units_bound) simp
  finally show ?thesis by simp
qed

lemma round_half_away_mono:
  assumes "0 \<le> x" and "x \<le> y"
  shows "round_half_away s x \<le> round_half_away s y"
proof -
  have "\<lfloor>x * 10 ^ s + 1 / 2\<rfloor> \<le> \<lfloor>y * 10 ^ s + 1 / 2\<rfloor>"
    using assms by (intro floor_mono add_right_mono mult_right_mono) simp_all
  with assms show ?thesis by (simp add: round_half_away_def round_units_def divide_right_mono)
qed

lemma round_half_away_exact: "x * 10 ^ s = of_int k \<Longrightarrow> round_half_away s x = x"
proof -
  assume k: "x * 10 ^ s = of_int k"
  then have x: "x = of_int k / 10 ^ s" by (simp add: field_simps)
  have "\<lfloor>of_int j + 1 / 2 :: rat\<rfloor> = j" for j :: int by linarith
  note fl = this [of k] this [of "- k"]
  have "round_units s x = k"
    using k fl by (simp add: round_units_def)
  then show ?thesis by (simp add: round_half_away_def x)
qed

lemma roundAmount_eq:
  "roundAmount x =
     (if \<bar>round_half_away 12 x\<bar> < 10 ^ 18 then Inr (roundFixed x 12)
      else Inl (ErrContext ''amount exceeds NUMERIC(30,12)'' ErrInvalidDecimal))"
proof -
  let ?v = "round_units 12 x"
  have s: "0 < (12 :: nat)" by simp
  obtain i f where i: "canonical_nat i" "all_digits f" and fl: "length f = 12"
    and lit: "roundFixed x 12 = (if ?v < 0 then ''-'' else []) @ dec_literal i f"
    and il: "(length i \<le> 18) = (\<bar>?v\<bar> < 10 ^ (18 + 12))"
    by (rule scaledIntegerString_form [OF s, of ?v, folded roundFixed_eq])
  have bnd: "(\<bar>round_half_away 12 x\<bar> < 10 ^ 18) = (\<bar>?v\<bar> < 10 ^ (18 + 12))"
  proof -
    have "\<bar>round_half_away 12 x\<bar> = of_int \<bar>?v\<bar> / 10 ^ 12"
      by (simp add: round_half_away_def abs_divide)
    then have "(\<bar>round_half_away 12 x\<bar> < 10 ^ 18) = (of_int \<bar>?v\<bar> < (of_int (10 ^ 30) :: rat))"
      by (simp only: divide_less_eq) simp
    then show ?thesis by (simp only: of_int_less_iff) simp
  qed
  show ?thesis
  proof (cases "\<bar>?v\<bar> < 10 ^ (18 + 12)")
    case True
    let ?sg = "if ?v < 0 then ''-'' else []"
    have "?sg \<in> sign_strings" by (simp add: sign_strings_def)
    then have "\<exists>c. parseBounded (?sg @ dec_literal i f) 12 True True = Inr c"
      using parseBounded_intro [of ?sg True i f 12 True] i fl il True by simp
    then obtain c where "parseBounded (roundFixed x 12) 12 True True = Inr c" using lit by metis
    then show ?thesis using True bnd by (simp add: roundAmount_def Let_def)
  next
    case False
    have "parseBounded (roundFixed x 12) 12 True True \<noteq> Inr c" for c
    proof
      assume "parseBounded (roundFixed x 12) 12 True True = Inr c"
      then obtain sg j g where "sg \<in> sign_strings" and j: "canonical_nat j" "all_digits g" "length j \<le> 18"
        and "roundFixed x 12 = sg @ dec_literal j g"
        by (rule parseBounded_elim)
      then have "rat_SetString (roundFixed x 12) = Some (if sg = ''-'' then - dec_rat j g else dec_rat j g)"
        using parsed_form_value(2) [of sg j g] by simp
      then have "\<bar>round_half_away 12 x\<bar> = dec_rat j g" by (auto simp: roundFixed_value)
      moreover have "dec_rat j g < 10 ^ 18"
        using j by (intro dec_rat_less) (auto simp: canonical_nat_def)
      ultimately show False using False bnd by simp
    qed
    then obtain e where "parseBounded (roundFixed x 12) 12 True True = Inl e"
      by (cases "parseBounded (roundFixed x 12) 12 True True") auto
    then show ?thesis using False bnd by (simp add: roundAmount_def Let_def)
  qed
qed

subsection \<open>Go's \<open>FloatString\<close>\<close>

lemma round_units_quotient:
  assumes "quotient_of x = (a, b)"
  shows "\<bar>round_units s x\<bar> = (\<bar>a\<bar> * 10 ^ s) div b + (if 2 * ((\<bar>a\<bar> * 10 ^ s) mod b) \<ge> b then 1 else 0)"
    and "(round_units s x < 0) \<longrightarrow> a < 0" and "a < 0 \<longrightarrow> round_units s x \<le> 0"
proof -
  have b: "0 < b" and x: "x = of_int a / of_int b"
    using assms quotient_of_denom_pos quotient_of_div by blast+
  have xneg: "(x < 0) = (a < 0)" using b by (simp add: x divide_less_0_iff)
  have "\<bar>x\<bar> * 10 ^ s = of_int (\<bar>a\<bar> * 10 ^ s) / of_int b"
    using b by (simp add: x)
  then have fl: "\<lfloor>\<bar>x\<bar> * 10 ^ s + 1 / 2\<rfloor> =
      (\<bar>a\<bar> * 10 ^ s) div b + (if 2 * ((\<bar>a\<bar> * 10 ^ s) mod b) \<ge> b then 1 else 0)"
    using floor_half [OF b, of "\<bar>a\<bar> * 10 ^ s"] by simp
  have pos: "0 \<le> \<lfloor>\<bar>x\<bar> * 10 ^ s + 1 / 2\<rfloor>" by simp
  have "round_units s x = (if x < 0 then - \<lfloor>\<bar>x\<bar> * 10 ^ s + 1 / 2\<rfloor> else \<lfloor>\<bar>x\<bar> * 10 ^ s + 1 / 2\<rfloor>)"
    by (simp add: round_units_def)
  with fl pos xneg show "\<bar>round_units s x\<bar> = (\<bar>a\<bar> * 10 ^ s) div b +
      (if 2 * ((\<bar>a\<bar> * 10 ^ s) mod b) \<ge> b then 1 else 0)"
    and "(round_units s x < 0) \<longrightarrow> a < 0" and "a < 0 \<longrightarrow> round_units s x \<le> 0"
    by (simp_all split: if_splits)
qed

lemma FloatString_form:
  assumes s: "0 < s" and q: "quotient_of x = (a, b)"
  obtains i f where "canonical_nat i" "all_digits f" "length f = s"
    "FloatString x s = (if a < 0 then ''-'' else []) @ dec_literal i f"
    "dec_rat i f = of_int \<bar>round_units s x\<bar> / 10 ^ s"
proof -
  have b: "0 < b" using q quotient_of_denom_pos by blast
  define n where "n = \<bar>a\<bar>"
  define r where "r = (n mod b) * 10 ^ s"
  define r1 where "r1 = (if 2 * (r mod b) \<ge> b then r div b + 1 else r div b)"
  have n: "n * 10 ^ s = b * ((n div b) * 10 ^ s) + r"
  proof -
    have "n * 10 ^ s = (b * (n div b) + n mod b) * 10 ^ s" by simp
    also have "\<dots> = b * ((n div b) * 10 ^ s) + r" unfolding r_def by (rule trans [OF distrib_right]) simp
    finally show ?thesis .
  qed
  have dv: "(n * 10 ^ s) div b = (n div b) * 10 ^ s + r div b" and md: "(n * 10 ^ s) mod b = r mod b"
    unfolding n using b by simp_all
  have ru: "\<bar>round_units s x\<bar> = (n div b) * 10 ^ s + r1"
    using round_units_quotient(1) [OF q, of s] by (simp add: r1_def dv md flip: n_def)
  have "n mod b < b" "0 \<le> n mod b" using b by simp_all
  then have "r < b * 10 ^ s" and r0: "0 \<le> r" by (simp_all add: r_def)
  moreover have "b * (r div b) \<le> r" using b minus_mod_eq_mult_div [of r b] pos_mod_sign [OF b, of r] by linarith
  ultimately have "b * (r div b) < b * 10 ^ s" by linarith
  then have "r div b < 10 ^ s" using b by simp
  then have r1: "0 \<le> r1" "r1 \<le> 10 ^ s"
    using r0 b pos_imp_zdiv_nonneg_iff [OF b, of r] by (simp_all add: r1_def)
  define q' where "q' = (if r1 \<ge> 10 ^ s then n div b + 1 else n div b)"
  define r' where "r' = (if r1 \<ge> 10 ^ s then r1 - 10 ^ s else r1)"
  have qr: "q' * 10 ^ s + r' = \<bar>round_units s x\<bar>"
    unfolding ru q'_def r'_def by (simp add: distrib_right)
  have r'b: "0 \<le> r'" "r' < 10 ^ s" using r1 by (auto simp: r'_def)
  have q'0: "0 \<le> q'" using b by (simp add: q'_def n_def pos_imp_zdiv_nonneg_iff)
  define fr where "fr = show_nat (nat r')"
  define f where "f = replicate (s - length fr) CHR ''0'' @ fr"
  define i where "i = show_nat (nat q')"
  have "nat r' < 10 ^ s" using r'b by (simp add: nat_less_iff)
  then have frl: "length fr \<le> s" using length_show_nat [OF s] by (simp add: fr_def)
  have fl: "length f = s" using frl by (simp add: f_def)
  have c: "canonical_nat i" "all_digits f" by (simp_all add: i_def f_def fr_def show_nat_canonical)
  have "FloatString x s = (if a < 0 then ''-'' else []) @ dec_literal i f"
  proof -
    have "f \<noteq> []" using fl s by auto
    moreover have "(if r1 \<ge> 10 ^ s then (n div b + 1, r1 - 10 ^ s) else (n div b, r1)) = (q', r')"
      by (simp add: q'_def r'_def)
    ultimately show ?thesis
      unfolding FloatString_def q Let_def prod.case n_def [symmetric] r_def [symmetric] r1_def [symmetric]
      by (simp add: dec_literal_def f_def fr_def i_def)
  qed
  moreover have "dec_rat i f = of_int \<bar>round_units s x\<bar> / 10 ^ s"
  proof -
    have "digits_val (i @ f) = nat q' * 10 ^ s + nat r'"
      using fl by (simp add: digits_val_append i_def digits_val_show_nat) (simp add: f_def fr_def digits_val_show_nat)
    then have "(of_nat (digits_val (i @ f)) :: rat) = of_int (q' * 10 ^ s + r')"
      using q'0 r'b by simp
    then show ?thesis using fl by (simp add: dec_rat_def qr)
  qed
  ultimately show ?thesis using that c fl by blast
qed

lemma FloatString_value:
  assumes "0 < s"
  shows "rat_SetString (FloatString x s) = Some (round_half_away s x)"
proof -
  obtain a b where q: "quotient_of x = (a, b)" by (cases "quotient_of x")
  obtain i f where c: "canonical_nat i" "all_digits f"
    and lit: "FloatString x s = (if a < 0 then ''-'' else []) @ dec_literal i f"
    and val: "dec_rat i f = of_int \<bar>round_units s x\<bar> / 10 ^ s"
    using FloatString_form [OF assms q] by metis
  have "rat_SetString (FloatString x s) = Some (if a < 0 then - dec_rat i f else dec_rat i f)"
    using rat_SetString_literal [of i f] c by (simp add: lit canonical_nat_def)
  then show ?thesis
    using round_units_quotient(2,3) [OF q, of s] by (auto simp: val round_half_away_def abs_if)
qed

section \<open>Exact costs\<close>

lemma parseBounded_value:
  assumes "parseBounded x scale signed allowZero = Inr c"
  shows "rat_SetString c = rat_SetString x" and "rat_SetString x = Some (amt x)"
    and "\<bar>amt x\<bar> < 10 ^ 18" and "\<not> signed \<Longrightarrow> 0 \<le> amt x" and "\<not> allowZero \<Longrightarrow> amt x \<noteq> 0"
    and "parseBounded c scale signed allowZero = Inr c"
proof -
  obtain sg i f where sg: "sg \<in> sign_strings" "sg \<noteq> [] \<longrightarrow> signed" and i: "canonical_nat i" "all_digits f"
    and l: "length i \<le> 18" "length f \<le> scale" and x: "x = sg @ dec_literal i f"
    and z: "dec_literal i (trim_right0 f) = ''0'' \<longrightarrow> allowZero" and c: "c = parsed_form sg i f"
    using assms by (rule parseBounded_elim)
  note val = parsed_form_value [OF sg(1) i]
  have less: "dec_rat i f < 10 ^ 18" using i l by (intro dec_rat_less) (simp_all add: canonical_nat_def)
  show "rat_SetString c = rat_SetString x" "rat_SetString x = Some (amt x)" using val by (simp_all add: c x)
  show "\<bar>amt x\<bar> < 10 ^ 18" using val less by (simp add: x)
  show "0 \<le> amt x" if "\<not> signed" using val sg that by (simp add: x)
  show "amt x \<noteq> 0" if "\<not> allowZero"
  proof
    assume "amt x = 0"
    then have "dec_rat i (trim_right0 f) = dec_rat ''0'' []"
      using val by (simp add: x dec_rat_def [of "''0''"] digits_val_Cons split: if_splits)
    then have "i = ''0'' \<and> trim_right0 f = []"
      using i trim_right0_last [of f]
      by (intro dec_rat_inj) (auto simp: canonical_nat_def)
    then show False using z that by (simp add: dec_literal_def)
  qed
  show "parseBounded c scale signed allowZero = Inr c"
    unfolding c by (rule parsed_form_reparse [OF sg i l z])
qed

lemma parseBounded_inj:
  assumes "parseBounded x scale signed allowZero = Inr c" and "parseBounded y scale' signed' allowZero' = Inr d"
  shows "c = d \<longleftrightarrow> amt x = amt y"
proof
  assume "c = d"
  then show "amt x = amt y" using parseBounded_value(1) [OF assms(1)] parseBounded_value(1) [OF assms(2)] by simp
next
  assume eq: "amt x = amt y"
  obtain sx i f where x: "sx \<in> sign_strings" "canonical_nat i" "all_digits f" "x = sx @ dec_literal i f"
    "c = parsed_form sx i f" using assms(1) by (rule parseBounded_elim)
  obtain sy j g where y: "sy \<in> sign_strings" "canonical_nat j" "all_digits g" "y = sy @ dec_literal j g"
    "d = parsed_form sy j g" using assms(2) by (rule parseBounded_elim)
  have vals: "(if sx = ''-'' then - dec_rat i f else dec_rat i f) = (if sy = ''-'' then - dec_rat j g else dec_rat j g)"
    using eq parsed_form_value(2) [OF x(1-3)] parsed_form_value(2) [OF y(1-3)] x(4) y(4) by simp
  then have abs: "dec_rat i (trim_right0 f) = dec_rat j (trim_right0 g)"
    using dec_rat_nonneg [of i f] dec_rat_nonneg [of j g] by (auto split: if_splits simp del: dec_rat_nonneg)
  have "i = j \<and> trim_right0 f = trim_right0 g"
    using x y trim_right0_last abs by (intro dec_rat_inj) auto
  moreover have "dec_literal i (trim_right0 f) = ''0''" if "dec_rat i f = 0"
  proof -
    have "i = ''0'' \<and> trim_right0 f = []"
      using that x trim_right0_last [of f]
      by (intro dec_rat_inj) (auto simp: canonical_nat_def dec_rat_def [of "''0''"] digits_val_Cons)
    then show ?thesis by (simp add: dec_literal_def)
  qed
  moreover have "dec_rat i f = dec_rat j g" using abs by simp
  ultimately show "c = d"
    using vals by (auto simp: x y parsed_form_def Let_def split: if_splits)
qed

lemmas ParsePrice_value = parseBounded_value [where scale = 12 and signed = False and allowZero = True,
    folded ParsePrice_def, simplified]
lemmas ParseMultiplier_value = parseBounded_value [where scale = 12 and signed = False and allowZero = False,
    folded ParseMultiplier_def, simplified]

lemma parsePrices_iff:
  "parsePrices ps = Inr rs \<longleftrightarrow> (\<forall>p \<in> set ps. \<not> isl (ParsePrice p)) \<and> rs = map amt ps"
proof (induction ps arbitrary: rs)
  case (Cons p ps)
  show ?case
  proof (cases "ParsePrice p")
    case (Inr c)
    then have "amt c = amt p" using ParsePrice_value(1) by simp
    then show ?thesis using Inr Cons.IH by (cases "parsePrices ps") auto
  qed simp
qed auto

lemma parsePrices_ok: "\<forall>p \<in> set ps. \<not> isl (ParsePrice p) \<Longrightarrow> parsePrices ps = Inr (map amt ps)"
  by (simp add: parsePrices_iff)

lemma multiplyCostAndRound_iff:
  "multiplyCostAndRound t m = Inr c \<longleftrightarrow>
     \<not> isl (ParseMultiplier m) \<and> \<bar>round_half_away 12 (t * amt m)\<bar> < 10 ^ 18 \<and> c = roundFixed (t * amt m) 12"
proof (cases "ParseMultiplier m")
  case (Inr k)
  then have "amt k = amt m" using ParseMultiplier_value(1) by simp
  then show ?thesis using Inr by (auto simp: multiplyCostAndRound_def roundAmount_eq)
qed (simp add: multiplyCostAndRound_def)





definition cost_ttl_args_ok :: "int \<Rightarrow> int \<Rightarrow> int \<Rightarrow> int \<Rightarrow> int \<Rightarrow> int \<Rightarrow> bool \<Rightarrow> bool" where
  "cost_ttl_args_ok inp cached written w5 w1 out present =
     (0 \<le> cached \<and> 0 \<le> written \<and> 0 \<le> w5 \<and> 0 \<le> w1 \<and> 0 \<le> out \<and> cached + written \<le> inp
      \<and> (if present then w5 + w1 = written else w5 = 0 \<and> w1 = 0))"

text \<open>The cache-write price of a request whose TTL split is \<open>w5\<close>, \<open>w1\<close>, or unknown.\<close>

definition ttl_write_cost :: "int \<Rightarrow> int \<Rightarrow> int \<Rightarrow> bool \<Rightarrow> rat \<Rightarrow> rat \<Rightarrow> rat" where
  "ttl_write_cost written w5 w1 present p5 p1 =
     (if present then of_int w5 * p5 + of_int w1 * p1 else of_int written * max p5 p1)"

lemma cost_ttl_eq:
  assumes ok: "cost_ttl_args_ok inp cached written w5 w1 out present"
    and ps: "\<forall>p \<in> {pin, pcached, p5, p1, pout}. \<not> isl (ParsePrice p)"
  shows "CalculateCostV2TTLWithMultiplier inp cached written w5 w1 out present pin pcached p5 p1 pout m =
    multiplyCostAndRound ((of_int (inp - cached - written) * amt pin + of_int cached * amt pcached
       + ttl_write_cost written w5 w1 present (amt p5) (amt p1) + of_int out * amt pout) / 1000000) m"
proof -
  have "parsePrices [pin, pcached, p5, p1, pout] = Inr (map amt [pin, pcached, p5, p1, pout])"
    using ps by (intro parsePrices_ok) simp
  then show ?thesis
    using ok by (cases present) (auto simp: CalculateCostV2TTLWithMultiplier_def cost_ttl_args_ok_def
        ttl_write_cost_def Let_def numeral_eq_Suc max_def add.assoc simp del: parsePrices.simps)
qed

lemma cost_ttl_InrD:
  assumes "CalculateCostV2TTLWithMultiplier inp cached written w5 w1 out present pin pcached p5 p1 pout m = Inr c"
  shows "cost_ttl_args_ok inp cached written w5 w1 out present"
    and "\<forall>p \<in> {pin, pcached, p5, p1, pout}. \<not> isl (ParsePrice p)"
proof -
  show "cost_ttl_args_ok inp cached written w5 w1 out present"
    using assms by (auto simp: CalculateCostV2TTLWithMultiplier_def cost_ttl_args_ok_def split: if_splits)
  obtain rs where "parsePrices [pin, pcached, p5, p1, pout] = Inr rs"
    using assms
    by (cases "parsePrices [pin, pcached, p5, p1, pout]")
      (auto simp: CalculateCostV2TTLWithMultiplier_def split: if_splits simp del: parsePrices.simps)
  then show "\<forall>p \<in> {pin, pcached, p5, p1, pout}. \<not> isl (ParsePrice p)"
    by (auto simp: parsePrices_iff simp del: parsePrices.simps)
qed

lemma ttl_write_cost_le:
  assumes "0 \<le> w5" and "0 \<le> w1" and "w5 + w1 = written"
  shows "ttl_write_cost written w5 w1 True p5 p1 \<le> ttl_write_cost written a b False p5 p1"
proof -
  have "of_int w5 * p5 \<le> of_int w5 * max p5 p1" and "of_int w1 * p1 \<le> of_int w1 * max p5 p1"
    using assms by (intro mult_left_mono; simp)+
  moreover have "of_int written * max p5 p1 = of_int w5 * max p5 p1 + of_int w1 * max p5 p1"
    using assms(3) by (simp add: distrib_right flip: assms(3))
  ultimately show ?thesis by (simp add: ttl_write_cost_def)
qed

section \<open>Properties\<close>

text \<open>
  C16: an accepted decimal is returned in a canonical form: it has the same value as the text that was
  given, it is accepted again and left unchanged, it stays below \<open>10\<^sup>18\<close> in absolute value, and the
  sign and zero options of the caller are respected.
\<close>

theorem parseBounded_canonical:
  assumes "parseBounded x scale signed allowZero = Inr c"
  shows "parseBounded c scale signed allowZero = Inr c
    \<and> rat_SetString c = Some (amt x) \<and> \<bar>amt x\<bar> < 10 ^ 18
    \<and> (signed \<or> 0 \<le> amt x) \<and> (allowZero \<or> amt x \<noteq> 0)"
  using parseBounded_value [OF assms] by auto

theorem parseBounded_canonical_witness:
  "parseBounded ''-12.3400'' 8 True False = Inr ''-12.34''
   \<and> parseBounded ''-12.34'' 8 True False = Inr ''-12.34''"
proof -
  have p: "parseBounded ''-12.3400'' 8 True False = Inr ''-12.34''" by code_simp
  show ?thesis using parseBounded_canonical [OF p] p by blast
qed

text \<open>
  canonical decimals can be compared as strings: two accepted inputs of the same scale have the
  same canonical text exactly when they denote the same number.
\<close>

lemma parseBounded_unique:
  assumes "parseBounded x scale signed allowZero = Inr c" and "parseBounded y scale' signed' allowZero' = Inr d"
  shows "c = d \<longleftrightarrow> amt x = amt y"
  by (rule parseBounded_inj [OF assms])

lemma parseBounded_unique_witness:
  "ParsePrice ''1.50'' = Inr ''1.5'' \<and> ParseInput ''+1.5000'' True True = Inr ''1.5'' \<and> amt ''1.50'' = amt ''+1.5000''"
proof -
  have p: "parseBounded ''1.50'' 12 False True = Inr ''1.5''" by code_simp
  have q: "parseBounded ''+1.5000'' 6 True True = Inr ''1.5''" by code_simp
  show ?thesis using parseBounded_unique [OF p q] p q by (simp add: ParsePrice_def ParseInput_def)
qed

text \<open>
  C17: rounding a rational amount to twelve places succeeds exactly when the result fits
  \<open>NUMERIC(30,12)\<close>; the text returned denotes the nearest multiple of \<open>10\<^sup>-\<^sup>1\<^sup>2\<close>, halves away from zero,
  and so is off by at most half a unit.
\<close>

theorem roundAmount_nearest:
  "case roundAmount x of
     Inr s \<Rightarrow> \<bar>round_half_away 12 x\<bar> < 10 ^ 18 \<and> rat_SetString s = Some (round_half_away 12 x)
            \<and> \<bar>amt s - x\<bar> \<le> 1 / (2 * 10 ^ 12)
   | Inl e \<Rightarrow> \<bar>round_half_away 12 x\<bar> \<ge> 10 ^ 18"
  using round_half_away_error [of 12 x] by (simp add: roundAmount_eq roundFixed_value)


text \<open>
  C18: charging a cache write whose TTL split was not reported is conservative: it never costs less
  than the same request with any split of the same written tokens into five-minute and one-hour parts.
\<close>

theorem cost_without_ttl_split_is_upper_bound:
  assumes "CalculateCostV2TTLWithMultiplier inp cached written w5 w1 out True pin pcached p5 p1 pout m = Inr s"
    and "CalculateCostV2TTLWithMultiplier inp cached written 0 0 out False pin pcached p5 p1 pout m = Inr t"
  shows "0 \<le> amt s \<and> amt s \<le> amt t"
proof -
  note ok = cost_ttl_InrD [OF assms(1)]
  note ok' = cost_ttl_InrD [OF assms(2)]
  let ?c = "\<lambda>w. (of_int (inp - cached - written) * amt pin + of_int cached * amt pcached + w + of_int out * amt pout) / 1000000"
  let ?k = "ttl_write_cost written w5 w1 True (amt p5) (amt p1)"
  let ?u = "ttl_write_cost written 0 0 False (amt p5) (amt p1)"
  have s: "s = roundFixed (?c ?k * amt m) 12" and m: "\<not> isl (ParseMultiplier m)"
    using assms(1) unfolding cost_ttl_eq [OF ok] multiplyCostAndRound_iff by simp_all
  have t: "t = roundFixed (?c ?u * amt m) 12"
    using assms(2) unfolding cost_ttl_eq [OF ok'] multiplyCostAndRound_iff by simp
  have m0: "0 \<le> amt m" using m ParseMultiplier_value(4) by (cases "ParseMultiplier m") auto
  have p0: "\<forall>p \<in> {pin, pcached, p5, p1, pout}. 0 \<le> amt p"
    using ok(2) ParsePrice_value(4) by (metis sum.exhaust isl_def)
  have args: "0 \<le> inp - cached - written" "0 \<le> cached" "0 \<le> out" "0 \<le> w5" "0 \<le> w1" "w5 + w1 = written"
    using ok(1) by (auto simp: cost_ttl_args_ok_def)
  have "?k \<le> ?u" using args by (intro ttl_write_cost_le) auto
  then have le: "?c ?k * amt m \<le> ?c ?u * amt m" using m0 by (intro mult_right_mono divide_right_mono) simp_all
  have pos: "0 \<le> of_int (inp - cached - written) * amt pin" "0 \<le> of_int cached * amt pcached"
    "0 \<le> of_int out * amt pout" "0 \<le> ?k"
    using args p0 by (auto simp: ttl_write_cost_def simp del: of_int_diff intro!: mult_nonneg_nonneg add_nonneg_nonneg)
  then have "0 \<le> ?c ?k" by simp
  then have k0: "0 \<le> ?c ?k * amt m" using m0 by (rule mult_nonneg_nonneg)
  show ?thesis
    using round_half_away_mono [OF k0 le, of 12] round_half_away_mono [OF order_refl k0, of 12]
    by (simp add: s t roundFixed_value round_half_away_exact [of 0 12 0])
qed

theorem cost_without_ttl_split_is_upper_bound_witness:
  "\<exists>s t. CalculateCostV2TTLWithMultiplier 1000 100 300 200 100 50 True ''1'' ''0.1'' ''1.25'' ''2'' ''5'' ''1'' = Inr s
     \<and> CalculateCostV2TTLWithMultiplier 1000 100 300 0 0 50 False ''1'' ''0.1'' ''1.25'' ''2'' ''5'' ''1'' = Inr t
     \<and> 0 \<le> amt s \<and> amt s \<le> amt t"
proof -
  have v: "rat_SetString ''1'' = Some 1" "rat_SetString ''0.1'' = Some (1 / 10)" "rat_SetString ''1.25'' = Some (5 / 4)"
    "rat_SetString ''2'' = Some 2" "rat_SetString ''5'' = Some 5" by code_simp+
  have ok: "\<forall>p \<in> {''1'', ''0.1'', ''1.25'', ''2'', ''5''}. \<not> isl (ParsePrice p)" "\<not> isl (ParseMultiplier ''1'')"
    by code_simp+
  have "\<exists>s. CalculateCostV2TTLWithMultiplier 1000 100 300 200 100 50 True ''1'' ''0.1'' ''1.25'' ''2'' ''5'' ''1'' = Inr s"
    using ok by (subst cost_ttl_eq)
      (simp_all add: cost_ttl_args_ok_def multiplyCostAndRound_iff v ttl_write_cost_def round_half_away_def round_units_def)
  moreover have "\<exists>t. CalculateCostV2TTLWithMultiplier 1000 100 300 0 0 50 False ''1'' ''0.1'' ''1.25'' ''2'' ''5'' ''1'' = Inr t"
    using ok by (subst cost_ttl_eq)
      (simp_all add: cost_ttl_args_ok_def multiplyCostAndRound_iff v ttl_write_cost_def round_half_away_def round_units_def)
  ultimately show ?thesis using cost_without_ttl_split_is_upper_bound by blast
qed

text \<open>
  C19: the store adds and subtracts stored amounts without losing a digit: on texts whose values are
  whole multiples of \<open>10\<^sup>-\<^sup>1\<^sup>2\<close>, \<^verbatim>\<open>billingAdd\<close>, \<^verbatim>\<open>billingSubtract\<close> and \<^verbatim>\<open>billingMin\<close> return a text
  that denotes the exact sum, difference and minimum.
\<close>

theorem billing_arithmetic_exact:
  assumes "rat_SetString x = Some a" and "a * 10 ^ 12 = of_int i"
    and "rat_SetString y = Some b" and "b * 10 ^ 12 = of_int j"
  shows "\<exists>s d m. billingAdd x y = Inr s \<and> rat_SetString s = Some (a + b)
    \<and> billingSubtract x y = Inr d \<and> rat_SetString d = Some (a - b)
    \<and> billingMin x y = Inr m \<and> rat_SetString m = Some (min a b)"
proof -
  have "(a + b) * 10 ^ 12 = of_int (i + j)" "(a - b) * 10 ^ 12 = of_int (i - j)"
    "min a b * 10 ^ 12 = of_int (if a > b then j else i)"
    using assms by (auto simp: distrib_right left_diff_distrib min_def)
  note ex = this [THEN round_half_away_exact]
  have "(if a > b then b else a) = min a b" by (simp add: min_def)
  then show ?thesis
    using assms(1,3) ex
    by (simp add: billingAdd_def billingSubtract_def billingMin_def billingRat_def FloatString_value)
qed

theorem billing_arithmetic_exact_witness:
  "\<exists>s d m. billingAdd ''0.100000'' ''2.5'' = Inr s \<and> rat_SetString s = Some (13 / 5)
    \<and> billingSubtract ''0.100000'' ''2.5'' = Inr d \<and> rat_SetString d = Some (- 12 / 5)
    \<and> billingMin ''0.100000'' ''2.5'' = Inr m \<and> rat_SetString m = Some (1 / 10)"
proof -
  have r: "rat_SetString ''0.100000'' = Some (1 / 10)" "rat_SetString ''2.5'' = Some (5 / 2)" by code_simp+
  have i: "(1 / 10 :: rat) * 10 ^ 12 = of_int 100000000000" "(5 / 2 :: rat) * 10 ^ 12 = of_int 2500000000000"
    by simp_all
  show ?thesis using billing_arithmetic_exact [OF r(1) i(1) r(2) i(2)] by (simp add: min_def)
qed

end
