(* ===== verification/Daily_Store.thy ===== *)
theory Daily_Store
  imports Prelude
begin

text \<open>
  The daily request counters of \<^verbatim>\<open>internal/limit/daily.go\<close>: the \<^verbatim>\<open>DailyStore\<close> interface as a
  locale with the laws its comment asks of an implementation (every reservation call increments all
  its counters once or none), and \<^verbatim>\<open>MemoryDailyStore\<close>, which is shown to satisfy them. The shared
  types of \<^verbatim>\<open>internal/limit/types.go\<close> are here as well.
\<close>

section \<open>Shared types\<close>

datatype Scope = ScopeKey | ScopeUser | ScopeGlobal

datatype Reason = ReasonRPM | ReasonConcurrency | ReasonDailyRequests

text \<open>
  A context is observed through successive calls of \<^verbatim>\<open>Err\<close>; the \<open>n\<close>-th call from now returns the
  \<open>n\<close>-th observation, so a context may be cancelled between two checks of the same operation.
\<close>

datatype ctx_error = Canceled | DeadlineExceeded

datatype ctx = NilCtx | Ctx "nat \<Rightarrow> ctx_error option"

fun later :: "ctx \<Rightarrow> ctx" where
  "later NilCtx = NilCtx"
| "later (Ctx f) = Ctx (\<lambda>n. f (Suc n))"

record DailyReservation =
  dr_Scope :: Scope
  dr_ID :: string
  dr_RequestLimit :: go_int64

datatype daily_error =
    ErrNilContext
  | ErrCtx ctx_error
  | ErrInvalidDay
  | ErrInvalidDailyEntry
  | ErrDuplicateDailyEntry
  | ErrCounterOverflow
  | is_DailyLimitError: DailyLimitError Scope string Reason go_int64 go_int64

fun validateContext :: "ctx \<Rightarrow> daily_error option" where
  "validateContext NilCtx = Some ErrNilContext"
| "validateContext (Ctx f) = map_option ErrCtx (f 0)"

text \<open>A date that parses prints back unchanged, as the layout has no optional part.\<close>

definition validateDay :: "string \<Rightarrow> daily_error option" where
  "validateDay day = (if parses_date day then None else Some ErrInvalidDay)"

definition validDailyScope :: "Scope \<Rightarrow> bool" where
  "validDailyScope scope = (scope = ScopeKey \<or> scope = ScopeUser)"

fun validateReservations_loop :: "(Scope \<times> string) list \<Rightarrow> DailyReservation list \<Rightarrow> daily_error option" where
  "validateReservations_loop seen [] = None"
| "validateReservations_loop seen (entry # entries) =
     (if \<not> validDailyScope (dr_Scope entry) \<or> dr_ID entry = [] \<or> dr_RequestLimit entry < 0
      then Some ErrInvalidDailyEntry
      else if (dr_Scope entry, dr_ID entry) \<in> set seen then Some ErrDuplicateDailyEntry
      else validateReservations_loop ((dr_Scope entry, dr_ID entry) # seen) entries)"

definition validateReservations :: "DailyReservation list \<Rightarrow> daily_error option" where
  "validateReservations entries = validateReservations_loop [] entries"

section \<open>The in-memory store\<close>

text \<open>
  The map of \<^verbatim>\<open>MemoryDailyStore\<close> is a partial function on (day, scope, id); a missing key reads as the
  zero value, as an index expression on a Go map does.
\<close>

type_synonym dailyKey = "string \<times> Scope \<times> string"
type_synonym MemoryDailyStore = "dailyKey \<Rightarrow> go_int64 option"

definition maxInt64 :: go_int64 where
  "maxInt64 = 2 ^ 63 - 1"

definition usage_of :: "MemoryDailyStore \<Rightarrow> dailyKey \<Rightarrow> go_int64" where
  "usage_of s k = (case s k of None \<Rightarrow> 0 | Some n \<Rightarrow> n)"

definition NewMemoryDailyStore :: MemoryDailyStore where
  "NewMemoryDailyStore = Map.empty"

definition dkey :: "string \<Rightarrow> DailyReservation \<Rightarrow> dailyKey" where
  "dkey day r = (day, dr_Scope r, dr_ID r)"

fun reserve_check :: "MemoryDailyStore \<Rightarrow> string \<Rightarrow> DailyReservation list \<Rightarrow> daily_error option" where
  "reserve_check s day [] = None"
| "reserve_check s day (r # rs) =
     (let current = usage_of s (dkey day r) in
      if dr_RequestLimit r > 0 \<and> current \<ge> dr_RequestLimit r
      then Some (DailyLimitError (dr_Scope r) (dr_ID r) ReasonDailyRequests current (dr_RequestLimit r))
      else if current = maxInt64 then Some ErrCounterOverflow
      else reserve_check s day rs)"

fun reserve_increment :: "MemoryDailyStore \<Rightarrow> string \<Rightarrow> DailyReservation list \<Rightarrow> MemoryDailyStore" where
  "reserve_increment s day [] = s"
| "reserve_increment s day (r # rs) =
     reserve_increment (s(dkey day r \<mapsto> usage_of s (dkey day r) + 1)) day rs"

definition ReserveRequests ::
  "MemoryDailyStore \<Rightarrow> ctx \<Rightarrow> string \<Rightarrow> DailyReservation list \<Rightarrow> daily_error option \<times> MemoryDailyStore" where
  "ReserveRequests s ctx day reservations =
     (case validateContext ctx of Some e \<Rightarrow> (Some e, s) | None \<Rightarrow>
      (case validateDay day of Some e \<Rightarrow> (Some e, s) | None \<Rightarrow>
      (case validateReservations reservations of Some e \<Rightarrow> (Some e, s) | None \<Rightarrow>
      (case validateContext (later ctx) of Some e \<Rightarrow> (Some e, s) | None \<Rightarrow>
      (case reserve_check s day reservations of Some e \<Rightarrow> (Some e, s) | None \<Rightarrow>
         (None, reserve_increment s day reservations))))))"

definition Usage :: "MemoryDailyStore \<Rightarrow> ctx \<Rightarrow> string \<Rightarrow> Scope \<Rightarrow> string \<Rightarrow> daily_error + go_int64" where
  "Usage s ctx day scope ident =
     (case validateContext ctx of Some e \<Rightarrow> Inl e | None \<Rightarrow>
      (case validateDay day of Some e \<Rightarrow> Inl e | None \<Rightarrow>
       if \<not> validDailyScope scope \<or> ident = [] then Inl ErrInvalidDailyEntry
       else (case validateContext (later ctx) of Some e \<Rightarrow> Inl e | None \<Rightarrow>
         Inr (usage_of s (day, scope, ident)))))"

text \<open>\<^verbatim>\<open>key.day < day\<close> compares Go strings byte by byte, which is the order on \<^typ>\<open>string\<close>.\<close>

definition DeleteBefore :: "MemoryDailyStore \<Rightarrow> string \<Rightarrow> daily_error option \<times> MemoryDailyStore" where
  "DeleteBefore s day =
     (case validateDay day of Some e \<Rightarrow> (Some e, s) | None \<Rightarrow>
        (None, \<lambda>k. if fst k < day then None else s k))"

section \<open>The \<open>DailyStore\<close> contract\<close>

text \<open>
  What \<^verbatim>\<open>Limiter\<close> relies on. \<open>usage\<close> reads the durable counter; \<open>inv\<close> is the implementation's own
  invariant. A call either fails and leaves every counter, or succeeds and increments exactly the
  counters of its reservations by one, none of which had reached its limit.
\<close>

definition reserved_keys :: "string \<Rightarrow> DailyReservation list \<Rightarrow> dailyKey set" where
  "reserved_keys day rs = dkey day ` set rs"

locale daily_store =
  fixes reserve :: "'d \<Rightarrow> ctx \<Rightarrow> string \<Rightarrow> DailyReservation list \<Rightarrow> daily_error option \<times> 'd"
    and usage :: "'d \<Rightarrow> dailyKey \<Rightarrow> int"
    and inv :: "'d \<Rightarrow> bool"
  assumes reserve_inv: "inv d \<Longrightarrow> reserve d c day rs = (res, d') \<Longrightarrow> inv d'"
    and reserve_error: "inv d \<Longrightarrow> reserve d c day rs = (Some e, d') \<Longrightarrow> usage d' = usage d"
    and reserve_success: "inv d \<Longrightarrow> reserve d c day rs = (None, d') \<Longrightarrow>
          usage d' k = usage d k + (if k \<in> reserved_keys day rs then 1 else 0)"
    and reserve_within: "inv d \<Longrightarrow> reserve d c day rs = (None, d') \<Longrightarrow> r \<in> set rs \<Longrightarrow>
          dr_RequestLimit r > 0 \<Longrightarrow> usage d (dkey day r) < dr_RequestLimit r"
    and reserve_limit: "inv d \<Longrightarrow> reserve d c day rs = (Some (DailyLimitError sc i rea cur lmt), d') \<Longrightarrow>
          \<exists>r \<in> set rs. dr_Scope r = sc \<and> dr_ID r = i \<and> dr_RequestLimit r = lmt \<and> 0 < lmt \<and>
            cur = usage d (dkey day r) \<and> lmt \<le> cur \<and> rea = ReasonDailyRequests"
begin

text \<open>A counter under a limit never passes it through reservations that carry that limit.\<close>

lemma reserve_keeps_limit:
  assumes "inv d" and "reserve d c day rs = (res, d')" and "0 < lmt" and "usage d k \<le> lmt"
    and "\<forall>r \<in> set rs. dkey day r = k \<longrightarrow> dr_RequestLimit r = lmt"
  shows "usage d' k \<le> lmt"
proof (cases res)
  case None
  show ?thesis
  proof (cases "k \<in> reserved_keys day rs")
    case True
    then obtain r where "r \<in> set rs" "dkey day r = k" by (auto simp: reserved_keys_def)
    with assms None have "usage d k < lmt" using reserve_within [of d c day rs d' r] by auto
    then show ?thesis using assms None True reserve_success [of d c day rs d' k] by simp
  next
    case False
    then show ?thesis using assms None reserve_success [of d c day rs d' k] by simp
  qed
next
  case (Some e)
  then show ?thesis using assms reserve_error [of d c day rs e d'] by simp
qed

lemma reserve_mono:
  assumes "inv d" and "reserve d c day rs = (res, d')"
  shows "usage d k \<le> usage d' k"
  using assms reserve_success [of d c day rs d' k] reserve_error [of d c day rs _ d'] by (cases res) auto

end

section \<open>\<open>MemoryDailyStore\<close> satisfies the contract\<close>

lemma validateReservations_loop_None:
  "validateReservations_loop seen rs = None \<Longrightarrow>
     distinct (map (\<lambda>r. (dr_Scope r, dr_ID r)) rs)
     \<and> (\<forall>r \<in> set rs. (dr_Scope r, dr_ID r) \<notin> set seen \<and> validDailyScope (dr_Scope r)
          \<and> dr_ID r \<noteq> [] \<and> 0 \<le> dr_RequestLimit r)"
proof (induction seen rs rule: validateReservations_loop.induct)
  case (2 seen entry entries)
  have ok: "validDailyScope (dr_Scope entry)" "dr_ID entry \<noteq> []" "0 \<le> dr_RequestLimit entry"
    "(dr_Scope entry, dr_ID entry) \<notin> set seen"
    "validateReservations_loop ((dr_Scope entry, dr_ID entry) # seen) entries = None"
    using "2.prems" by (simp_all split: if_splits)
  have ih: "distinct (map (\<lambda>r. (dr_Scope r, dr_ID r)) entries) \<and>
      (\<forall>r \<in> set entries. (dr_Scope r, dr_ID r) \<notin> set ((dr_Scope entry, dr_ID entry) # seen)
        \<and> validDailyScope (dr_Scope r) \<and> dr_ID r \<noteq> [] \<and> 0 \<le> dr_RequestLimit r)"
    by (rule "2.IH") (use ok in simp_all)
  then have "(dr_Scope entry, dr_ID entry) \<notin> (\<lambda>r. (dr_Scope r, dr_ID r)) ` set entries" by fastforce
  with ih ok show ?case by simp
qed simp

lemma reserve_check_None:
  "reserve_check s day rs = None \<longleftrightarrow>
     (\<forall>r \<in> set rs. (0 < dr_RequestLimit r \<longrightarrow> usage_of s (dkey day r) < dr_RequestLimit r)
        \<and> usage_of s (dkey day r) \<noteq> maxInt64)"
proof (induction rs)
  case (Cons r rs)
  then show ?case by (simp add: Let_def not_le)
qed simp

lemma reserve_check_Some:
  "reserve_check s day rs = Some e \<Longrightarrow>
     e = ErrCounterOverflow \<or>
     (\<exists>r \<in> set rs. e = DailyLimitError (dr_Scope r) (dr_ID r) ReasonDailyRequests
          (usage_of s (dkey day r)) (dr_RequestLimit r)
        \<and> 0 < dr_RequestLimit r \<and> dr_RequestLimit r \<le> usage_of s (dkey day r))"
  by (induction rs) (auto simp: Let_def split: if_splits)

lemma usage_of_upd [simp]: "usage_of (s(k \<mapsto> v)) k' = (if k' = k then v else usage_of s k')"
  by (simp add: usage_of_def)

lemma reserve_increment_usage:
  assumes "distinct (map (dkey day) rs)"
  shows "usage_of (reserve_increment s day rs) k = usage_of s k + (if k \<in> reserved_keys day rs then 1 else 0)"
  using assms
proof (induction rs arbitrary: s)
  case (Cons r rs)
  define s1 where "s1 = s(dkey day r \<mapsto> usage_of s (dkey day r) + 1)"
  have u: "usage_of s1 k = usage_of s k + (if k = dkey day r then 1 else 0)" by (simp add: s1_def)
  have n: "dkey day r \<notin> dkey day ` set rs" and d: "distinct (map (dkey day) rs)" using Cons.prems by simp_all
  have "usage_of (reserve_increment s day (r # rs)) k = usage_of (reserve_increment s1 day rs) k"
    by (simp add: s1_def)
  also have "\<dots> = usage_of s1 k + (if k \<in> reserved_keys day rs then 1 else 0)" by (rule Cons.IH [OF d])
  finally show ?case using n by (auto simp: u reserved_keys_def)
qed (simp add: reserved_keys_def)

lemma if_intro_mem: "x \<in> A \<Longrightarrow> y \<in> A \<Longrightarrow> (if b then x else y) \<in> A"
  by simp

lemma other_errors:
  "validateContext c = Some e \<Longrightarrow> \<not> is_DailyLimitError e"
  "validateDay day = Some e \<Longrightarrow> \<not> is_DailyLimitError e"
  "validateReservations rs = Some e \<Longrightarrow> \<not> is_DailyLimitError e"
proof -
  show "validateContext c = Some e \<Longrightarrow> \<not> is_DailyLimitError e" by (cases c) auto
  have "validateDay day \<in> {None, Some ErrInvalidDay}"
    unfolding validateDay_def by (rule if_intro_mem) simp_all
  then show "validateDay day = Some e \<Longrightarrow> \<not> is_DailyLimitError e" by auto
  have "validateReservations_loop seen rs = Some e \<Longrightarrow> \<not> is_DailyLimitError e" for seen
    by (induction seen rs rule: validateReservations_loop.induct) (auto split: if_splits)
  then show "validateReservations rs = Some e \<Longrightarrow> \<not> is_DailyLimitError e"
    by (simp add: validateReservations_def)
qed

lemma ReserveRequests_cases:
  assumes "ReserveRequests s c day rs = (res, s')"
  obtains (Error) e where "res = Some e" "s' = s" "is_DailyLimitError e \<Longrightarrow> reserve_check s day rs = Some e"
  | (Ok) "res = None" "s' = reserve_increment s day rs" "reserve_check s day rs = None"
      "distinct (map (dkey day) rs)"
proof -
  have d: "distinct (map (dkey day) rs)" if "validateReservations rs = None"
    using validateReservations_loop_None [of "[]" rs] that
    by (auto simp: validateReservations_def dkey_def distinct_map inj_on_def)
  note r = assms [unfolded ReserveRequests_def]
  show ?thesis
  proof (cases "validateContext c")
    case (Some e)
    then show ?thesis using r other_errors by (intro Error [of e]) auto
  next
    case c: None
    show ?thesis
    proof (cases "validateDay day")
      case (Some e)
      then show ?thesis using r c other_errors by (intro Error [of e]) auto
    next
      case dy: None
      show ?thesis
      proof (cases "validateReservations rs")
        case (Some e)
        then show ?thesis using r c dy other_errors by (intro Error [of e]) auto
      next
        case None
        note v = this
        show ?thesis
        proof (cases "validateContext (later c)")
          case (Some e)
          then show ?thesis using r c dy v other_errors by (intro Error [of e]) auto
        next
          case None
          then have "(case reserve_check s day rs of Some e \<Rightarrow> (Some e, s)
              | None \<Rightarrow> (None, reserve_increment s day rs)) = (res, s')" using r c dy v by simp
          note x = this
          show ?thesis
          proof (cases "reserve_check s day rs")
            case None
            with x d [OF v] show ?thesis by (intro Ok) simp_all
          next
            case (Some e)
            with x show ?thesis by (intro Error [of e]) simp_all
          qed
        qed
      qed
    qed
  qed
qed

interpretation mds: daily_store ReserveRequests usage_of "\<lambda>_. True"
proof
  fix d d' :: MemoryDailyStore and c day rs e r k sc i rea cur lmt
  show "usage_of d' = usage_of d" if "ReserveRequests d c day rs = (Some e, d')"
    using that by (rule ReserveRequests_cases) auto
  show "usage_of d' k = usage_of d k + (if k \<in> reserved_keys day rs then 1 else 0)"
    if "ReserveRequests d c day rs = (None, d')"
    using that by (rule ReserveRequests_cases) (auto simp: reserve_increment_usage)
  show "usage_of d (dkey day r) < dr_RequestLimit r"
    if "ReserveRequests d c day rs = (None, d')" "r \<in> set rs" "dr_RequestLimit r > 0"
    using that(1) by (rule ReserveRequests_cases) (use that in \<open>auto simp: reserve_check_None\<close>)
  show "\<exists>r \<in> set rs. dr_Scope r = sc \<and> dr_ID r = i \<and> dr_RequestLimit r = lmt \<and> 0 < lmt \<and>
            cur = usage_of d (dkey day r) \<and> lmt \<le> cur \<and> rea = ReasonDailyRequests"
    if "ReserveRequests d c day rs = (Some (DailyLimitError sc i rea cur lmt), d')"
    using that by (rule ReserveRequests_cases) (auto dest: reserve_check_Some)
qed auto

text \<open>
  C20: a reservation call on the in-memory store is transactional: on success every listed counter is one
  higher, on any error none has moved, whatever the context does between the checks.
\<close>

theorem ReserveRequests_atomic:
  "case ReserveRequests s c day rs of
     (None, s') \<Rightarrow> \<forall>k. usage_of s' k = usage_of s k + (if k \<in> reserved_keys day rs then 1 else 0)
   | (Some e, s') \<Rightarrow> s' = s"
proof (cases "ReserveRequests s c day rs")
  case (Pair res s')
  then show ?thesis
    by (rule ReserveRequests_cases) (auto simp: Pair reserve_increment_usage)
qed

end
