(* ===== verification/Limiter.thy ===== *)
theory Limiter
  imports Daily_Store "HOL-Library.Multiset"
begin

text \<open>
  The in-process admission control of \<^verbatim>\<open>internal/limit/limiter.go\<close>: requests per window and
  concurrency for a key, its user and the whole gateway, with the durable daily counters behind the
  \<^verbatim>\<open>DailyStore\<close> seam. The mutex makes \<^verbatim>\<open>reserveLocal\<close>, \<^verbatim>\<open>rollbackLocal\<close> and the release closure
  atomic, so concurrent callers are interleavings of these sections; the last part proves the counters
  exact and within their limits in every interleaving.
\<close>

section \<open>Configuration and state\<close>

record Identity =
  KeyID :: string
  UserID :: string

record Limits =
  RequestsPerMinute :: int
  Concurrent :: int
  RequestsPerDay :: go_int64

text \<open>
  A \<^verbatim>\<open>time.Location\<close> is the offset in seconds east of UTC in force at a Unix second. The clock is the
  \<open>now\<close> argument of the operations, the store an argument of \<open>Acquire\<close>; whether a store was
  configured is \<open>HasDailyStore\<close>.
\<close>

type_synonym location = "int \<Rightarrow> int"

record Config =
  cfg_Key :: Limits
  cfg_User :: Limits
  cfg_GlobalConcurrent :: int
  cfg_Window :: duration
  cfg_ConcurrencyRetryAfter :: duration
  cfg_DayLocation :: "location option"
  HasDailyStore :: bool

record windowCounter =
  wc_start :: timestamp
  wc_count :: int

record localReservation =
  lr_identity :: Identity
  lr_window :: timestamp
  lr_keyRPM :: bool
  lr_userRPM :: bool
  lr_concurrent :: bool

record Limiter =
  config :: Config
  keyRPM :: "string \<Rightarrow> windowCounter option"
  userRPM :: "string \<Rightarrow> windowCounter option"
  keyConcurrent :: "string \<Rightarrow> int option"
  userConcurrent :: "string \<Rightarrow> int option"
  globalCurrent :: int

record LimitError =
  le_Scope :: Scope
  le_Reason :: Reason
  le_RetryAfter :: duration
  le_Limit :: go_int64

datatype limiter_error = ErrInvalidConfig | ErrDailyStoreRequired

datatype acquire_error =
    AcquireContext daily_error
  | ErrInvalidIdentity
  | Limited LimitError
  | ReserveDaily daily_error

abbreviation DefaultWindow :: duration where "DefaultWindow \<equiv> minute"
abbreviation DefaultConcurrencyRetryAfter :: duration where "DefaultConcurrencyRetryAfter \<equiv> second"

definition utc :: location where
  "utc t = 0"

definition DefaultConfig :: "bool \<Rightarrow> Config" where
  "DefaultConfig store =
     \<lparr> cfg_Key = \<lparr> RequestsPerMinute = 30, Concurrent = 16, RequestsPerDay = 1000 \<rparr>,
       cfg_User = \<lparr> RequestsPerMinute = 60, Concurrent = 16, RequestsPerDay = 2000 \<rparr>,
       cfg_GlobalConcurrent = 32, cfg_Window = 0, cfg_ConcurrencyRetryAfter = 0,
       cfg_DayLocation = None, HasDailyStore = store \<rparr>"

definition invalidLimits :: "Limits \<Rightarrow> bool" where
  "invalidLimits v = (RequestsPerMinute v < 0 \<or> Concurrent v < 0 \<or> RequestsPerDay v < 0)"

definition hasDailyLimits :: "Limits \<Rightarrow> bool" where
  "hasDailyLimits v = (RequestsPerDay v > 0)"

definition validateConfig :: "Config \<Rightarrow> limiter_error option" where
  "validateConfig c =
     (if cfg_Window c < 0 \<or> cfg_ConcurrencyRetryAfter c < 0 \<or> cfg_GlobalConcurrent c < 0
         \<or> invalidLimits (cfg_Key c) \<or> invalidLimits (cfg_User c) then Some ErrInvalidConfig
      else if (hasDailyLimits (cfg_Key c) \<or> hasDailyLimits (cfg_User c)) \<and> \<not> HasDailyStore c
      then Some ErrDailyStoreRequired
      else None)"

definition New :: "Config \<Rightarrow> limiter_error + Limiter" where
  "New c =
     (case validateConfig c of
        Some e \<Rightarrow> Inl e
      | None \<Rightarrow>
          let c1 = (if cfg_Window c = 0 then c\<lparr>cfg_Window := DefaultWindow\<rparr> else c);
              c2 = (if cfg_ConcurrencyRetryAfter c1 = 0
                    then c1\<lparr>cfg_ConcurrencyRetryAfter := DefaultConcurrencyRetryAfter\<rparr> else c1);
              c3 = (if cfg_DayLocation c2 = None then c2\<lparr>cfg_DayLocation := Some utc\<rparr> else c2) in
          Inr \<lparr> config = c3, keyRPM = Map.empty, userRPM = Map.empty,
                keyConcurrent = Map.empty, userConcurrent = Map.empty, globalCurrent = 0 \<rparr>)"

section \<open>Calendar days\<close>

text \<open>
  Instants are nanoseconds since 0001-01-01 UTC, Go's zero time. \<open>local_day\<close> is the number of days
  since then on the local calendar; \<open>date_of_days\<close> gives the Gregorian date of such a day.
\<close>

definition unix_epoch :: int where
  "unix_epoch = 62135596800"

definition local_seconds :: "timestamp \<Rightarrow> location \<Rightarrow> int" where
  "local_seconds now loc = now div second + loc (now div second - unix_epoch)"

definition local_day :: "timestamp \<Rightarrow> location \<Rightarrow> int" where
  "local_day now loc = local_seconds now loc div 86400"

definition dayAt :: "timestamp \<Rightarrow> location \<Rightarrow> string" where
  "dayAt now loc =
     (let (y, mo, d) = date_of_days (nat (local_day now loc)) in
      pad_left 4 (show_nat y) @ ''-'' @ pad_left 2 (show_nat mo) @ ''-'' @ pad_left 2 (show_nat d))"

text \<open>
  \<^verbatim>\<open>time.Date\<close> with a location reads the local clock value as UTC, looks the offset up there and,
  when it is not zero, takes the offset in force at the instant that one gives.
\<close>

definition date_in_location :: "int \<Rightarrow> location \<Rightarrow> int" where
  "date_in_location secs loc =
     (let offset = loc (secs - unix_epoch) in
      if offset = 0 then secs else secs - loc (secs - offset - unix_epoch))"

definition untilNextDay :: "timestamp \<Rightarrow> location \<Rightarrow> duration" where
  "untilNextDay now loc =
     (let nextday = date_in_location ((local_day now loc + 1) * 86400) loc * second;
          retry = nextday - now in
      if retry \<le> 0 then second else retry)"

definition retryAfterSeconds :: "duration \<Rightarrow> int" where
  "retryAfterSeconds v =
     (if v \<le> 0 then 1
      else let seconds = go_quo v second;
               seconds' = (if go_rem v second \<noteq> 0 then seconds + 1 else seconds) in
           if seconds' < 1 then 1 else seconds')"

section \<open>Local reservations\<close>

definition activeCounter ::
  "(string \<Rightarrow> windowCounter option) \<Rightarrow> string \<Rightarrow> timestamp \<Rightarrow> windowCounter \<times> (string \<Rightarrow> windowCounter option)" where
  "activeCounter counters ident window =
     (case counters ident of
        None \<Rightarrow> let c = \<lparr>wc_start = window, wc_count = 0\<rparr> in (c, counters(ident \<mapsto> c))
      | Some c \<Rightarrow>
          if wc_start c \<noteq> window
          then let c' = \<lparr>wc_start = window, wc_count = 0\<rparr> in (c', counters(ident \<mapsto> c'))
          else (c, counters))"

definition conc :: "(string \<Rightarrow> int option) \<Rightarrow> string \<Rightarrow> int" where
  "conc m k = (case m k of None \<Rightarrow> 0 | Some n \<Rightarrow> n)"

definition bump :: "(string \<Rightarrow> windowCounter option) \<Rightarrow> string \<Rightarrow> windowCounter \<Rightarrow> string \<Rightarrow> windowCounter option" where
  "bump counters ident c = counters(ident \<mapsto> c\<lparr>wc_count := wc_count c + 1\<rparr>)"

definition reserveLocal ::
  "Limiter \<Rightarrow> Identity \<Rightarrow> timestamp \<Rightarrow> (LimitError + localReservation) \<times> Limiter" where
  "reserveLocal l identity now =
     (let cfg = config l; window = time_truncate now (cfg_Window cfg);
          (keyCounter, keyRPM1) = activeCounter (keyRPM l) (KeyID identity) window;
          (userCounter, userRPM1) = activeCounter (userRPM l) (UserID identity) window;
          l1 = l\<lparr>keyRPM := keyRPM1, userRPM := userRPM1\<rparr>;
          windowRetry = window + cfg_Window cfg - now;
          reject = (\<lambda>scope reason retry lmt. (Inl \<lparr>le_Scope = scope, le_Reason = reason,
                      le_RetryAfter = retry, le_Limit = lmt\<rparr>, l1)) in
      if RequestsPerMinute (cfg_Key cfg) > 0 \<and> wc_count keyCounter \<ge> RequestsPerMinute (cfg_Key cfg)
      then reject ScopeKey ReasonRPM windowRetry (RequestsPerMinute (cfg_Key cfg))
      else if RequestsPerMinute (cfg_User cfg) > 0 \<and> wc_count userCounter \<ge> RequestsPerMinute (cfg_User cfg)
      then reject ScopeUser ReasonRPM windowRetry (RequestsPerMinute (cfg_User cfg))
      else if Concurrent (cfg_Key cfg) > 0 \<and> conc (keyConcurrent l1) (KeyID identity) \<ge> Concurrent (cfg_Key cfg)
      then reject ScopeKey ReasonConcurrency (cfg_ConcurrencyRetryAfter cfg) (Concurrent (cfg_Key cfg))
      else if Concurrent (cfg_User cfg) > 0 \<and> conc (userConcurrent l1) (UserID identity) \<ge> Concurrent (cfg_User cfg)
      then reject ScopeUser ReasonConcurrency (cfg_ConcurrencyRetryAfter cfg) (Concurrent (cfg_User cfg))
      else if cfg_GlobalConcurrent cfg > 0 \<and> globalCurrent l1 \<ge> cfg_GlobalConcurrent cfg
      then reject ScopeGlobal ReasonConcurrency (cfg_ConcurrencyRetryAfter cfg) (cfg_GlobalConcurrent cfg)
      else
        let kr = (RequestsPerMinute (cfg_Key cfg) > 0); ur = (RequestsPerMinute (cfg_User cfg) > 0) in
        (Inr \<lparr>lr_identity = identity, lr_window = window, lr_keyRPM = kr, lr_userRPM = ur, lr_concurrent = True\<rparr>,
         l1\<lparr>keyRPM := if kr then bump keyRPM1 (KeyID identity) keyCounter else keyRPM1,
            userRPM := if ur then bump userRPM1 (UserID identity) userCounter else userRPM1,
            keyConcurrent := (keyConcurrent l)(KeyID identity \<mapsto> conc (keyConcurrent l) (KeyID identity) + 1),
            userConcurrent := (userConcurrent l)(UserID identity \<mapsto> conc (userConcurrent l) (UserID identity) + 1),
            globalCurrent := globalCurrent l + 1\<rparr>))"

definition conc_dec :: "(string \<Rightarrow> int option) \<Rightarrow> string \<Rightarrow> string \<Rightarrow> int option" where
  "conc_dec m k = (if conc m k > 1 then m(k \<mapsto> conc m k - 1) else m(k := None))"

definition releaseConcurrentLocked :: "Limiter \<Rightarrow> Identity \<Rightarrow> Limiter" where
  "releaseConcurrentLocked l identity =
     l\<lparr>keyConcurrent := conc_dec (keyConcurrent l) (KeyID identity),
       userConcurrent := conc_dec (userConcurrent l) (UserID identity),
       globalCurrent := (if globalCurrent l > 0 then globalCurrent l - 1 else globalCurrent l)\<rparr>"

definition unbump ::
  "(string \<Rightarrow> windowCounter option) \<Rightarrow> string \<Rightarrow> timestamp \<Rightarrow> string \<Rightarrow> windowCounter option" where
  "unbump counters ident window =
     (case counters ident of
        None \<Rightarrow> counters
      | Some c \<Rightarrow> if wc_start c = window \<and> wc_count c > 0
                  then counters(ident \<mapsto> c\<lparr>wc_count := wc_count c - 1\<rparr>) else counters)"

definition rollbackLocal :: "Limiter \<Rightarrow> localReservation \<Rightarrow> Limiter" where
  "rollbackLocal l r =
     (let l1 = (if lr_keyRPM r then l\<lparr>keyRPM := unbump (keyRPM l) (KeyID (lr_identity r)) (lr_window r)\<rparr> else l);
          l2 = (if lr_userRPM r then l1\<lparr>userRPM := unbump (userRPM l1) (UserID (lr_identity r)) (lr_window r)\<rparr> else l1) in
      if lr_concurrent r then releaseConcurrentLocked l2 (lr_identity r) else l2)"

section \<open>Release and acquire\<close>

text \<open>
  The closure made by \<^verbatim>\<open>releaseFor\<close>: the identity it captured and whether its \<^verbatim>\<open>sync.Once\<close> has fired.
  Both the caller and the goroutine that waits for cancellation call this one closure.
\<close>

record ReleaseFunc =
  rf_identity :: Identity
  rf_done :: bool

definition releaseFor :: "Identity \<Rightarrow> ReleaseFunc" where
  "releaseFor identity = \<lparr>rf_identity = identity, rf_done = False\<rparr>"

definition call_release :: "Limiter \<Rightarrow> ReleaseFunc \<Rightarrow> Limiter \<times> ReleaseFunc" where
  "call_release l rf =
     (if rf_done rf then (l, rf)
      else (releaseConcurrentLocked l (rf_identity rf), rf\<lparr>rf_done := True\<rparr>))"

definition dailyReservations :: "Limiter \<Rightarrow> Identity \<Rightarrow> DailyReservation list" where
  "dailyReservations l identity =
     (if hasDailyLimits (cfg_Key (config l))
      then [\<lparr>dr_Scope = ScopeKey, dr_ID = KeyID identity, dr_RequestLimit = RequestsPerDay (cfg_Key (config l))\<rparr>]
      else []) @
     (if hasDailyLimits (cfg_User (config l))
      then [\<lparr>dr_Scope = ScopeUser, dr_ID = UserID identity, dr_RequestLimit = RequestsPerDay (cfg_User (config l))\<rparr>]
      else [])"

definition day_location :: "Limiter \<Rightarrow> location" where
  "day_location l = (case cfg_DayLocation (config l) of None \<Rightarrow> utc | Some loc \<Rightarrow> loc)"

definition daily_failure :: "Limiter \<Rightarrow> timestamp \<Rightarrow> daily_error \<Rightarrow> acquire_error" where
  "daily_failure l now e =
     (case e of
        DailyLimitError scope ident reason current lmt \<Rightarrow>
          Limited \<lparr>le_Scope = scope, le_Reason = reason,
            le_RetryAfter = untilNextDay now (day_location l), le_Limit = lmt\<rparr>
      | _ \<Rightarrow> ReserveDaily e)"

definition Acquire ::
  "('d \<Rightarrow> ctx \<Rightarrow> string \<Rightarrow> DailyReservation list \<Rightarrow> daily_error option \<times> 'd) \<Rightarrow> Limiter \<Rightarrow> 'd
   \<Rightarrow> ctx \<Rightarrow> Identity \<Rightarrow> timestamp \<Rightarrow> (acquire_error + ReleaseFunc) \<times> Limiter \<times> 'd" where
  "Acquire store_reserve l d ctx identity now =
     (case validateContext ctx of
        Some e \<Rightarrow> (Inl (AcquireContext e), l, d)
      | None \<Rightarrow>
          if KeyID identity = [] \<or> UserID identity = [] then (Inl ErrInvalidIdentity, l, d)
          else
            (case reserveLocal l identity now of
               (Inl e, l1) \<Rightarrow> (Inl (Limited e), l1, d)
             | (Inr reservation, l1) \<Rightarrow>
                 let reservations = dailyReservations l1 identity in
                 if reservations \<noteq> []
                 then (case store_reserve d (later ctx) (dayAt now (day_location l1)) reservations of
                         (Some e, d') \<Rightarrow> (Inl (daily_failure l1 now e), rollbackLocal l1 reservation, d')
                       | (None, d') \<Rightarrow> (Inr (releaseFor identity), l1, d'))
                 else (Inr (releaseFor identity), l1, d)))"

record Snapshot =
  sn_KeyRPM :: int
  sn_UserRPM :: int
  sn_KeyConcurrent :: int
  sn_UserConcurrent :: int
  sn_GlobalConcurrent :: int
  sn_WindowEnds :: timestamp

definition window_count :: "(string \<Rightarrow> windowCounter option) \<Rightarrow> string \<Rightarrow> timestamp \<Rightarrow> int" where
  "window_count counters ident window =
     (case counters ident of None \<Rightarrow> 0 | Some c \<Rightarrow> if wc_start c = window then wc_count c else 0)"

definition take_snapshot :: "Limiter \<Rightarrow> Identity \<Rightarrow> timestamp \<Rightarrow> Snapshot" where
  "take_snapshot l identity now =
     (let window = time_truncate now (cfg_Window (config l)) in
      \<lparr> sn_KeyRPM = window_count (keyRPM l) (KeyID identity) window,
        sn_UserRPM = window_count (userRPM l) (UserID identity) window,
        sn_KeyConcurrent = conc (keyConcurrent l) (KeyID identity),
        sn_UserConcurrent = conc (userConcurrent l) (UserID identity),
        sn_GlobalConcurrent = globalCurrent l,
        sn_WindowEnds = window + cfg_Window (config l) \<rparr>)"

section \<open>What each atomic section does\<close>

definition counters_ok :: "int \<Rightarrow> (string \<Rightarrow> windowCounter option) \<Rightarrow> bool" where
  "counters_ok lmt counters =
     (\<forall>k c. counters k = Some c \<longrightarrow> 0 \<le> wc_count c \<and> (0 < lmt \<longrightarrow> wc_count c \<le> lmt))"

lemma activeCounter_spec:
  assumes "activeCounter counters k window = (c, counters')"
  shows "counters' k = Some c" and "wc_start c = window" and "k' \<noteq> k \<Longrightarrow> counters' k' = counters k'"
    and "wc_count c = window_count counters k window"
  using assms by (auto simp: activeCounter_def window_count_def Let_def split: option.splits if_splits)

lemma activeCounter_ok:
  assumes "activeCounter counters k window = (c, counters')" and "counters_ok lmt counters"
  shows "counters_ok lmt counters'" and "0 \<le> wc_count c"
proof -
  have c: "0 \<le> wc_count c \<and> (0 < lmt \<longrightarrow> wc_count c \<le> lmt)"
    using assms by (auto simp: activeCounter_def counters_ok_def Let_def split: option.splits if_splits)
  then show "0 \<le> wc_count c" by simp
  show "counters_ok lmt counters'"
    unfolding counters_ok_def
  proof (intro allI impI)
    fix k' c' assume k': "counters' k' = Some c'"
    show "0 \<le> wc_count c' \<and> (0 < lmt \<longrightarrow> wc_count c' \<le> lmt)"
    proof (cases "k' = k")
      case True
      then show ?thesis using k' c activeCounter_spec(1) [OF assms(1)] by simp
    next
      case False
      then have "counters k' = Some c'" using k' activeCounter_spec(3) [OF assms(1)] by simp
      then show ?thesis using assms(2) by (simp add: counters_ok_def)
    qed
  qed
qed

lemma bump_ok:
  assumes "counters_ok lmt counters" and "0 \<le> wc_count c" and "0 < lmt \<Longrightarrow> wc_count c < lmt"
  shows "counters_ok lmt (bump counters k c)"
  using assms by (auto simp: counters_ok_def bump_def)

lemma unbump_ok:
  assumes "counters_ok lmt counters"
  shows "counters_ok lmt (unbump counters k window)"
proof (cases "counters k")
  case (Some c)
  then have "0 \<le> wc_count c \<and> (0 < lmt \<longrightarrow> wc_count c \<le> lmt)" using assms by (simp add: counters_ok_def)
  then have "0 < lmt \<longrightarrow> wc_count c - 1 \<le> lmt" by linarith
  then show ?thesis using assms Some by (simp add: unbump_def counters_ok_def)
qed (simp add: unbump_def assms)

definition rpm_ok :: "Limiter \<Rightarrow> bool" where
  "rpm_ok l = (counters_ok (RequestsPerMinute (cfg_Key (config l))) (keyRPM l)
     \<and> counters_ok (RequestsPerMinute (cfg_User (config l))) (userRPM l))"

text \<open>The two outcomes of \<open>reserveLocal\<close>.\<close>

lemma reserveLocal_reject:
  assumes "reserveLocal l i now = (Inl e, l')"
  shows "config l' = config l" and "keyConcurrent l' = keyConcurrent l" and "userConcurrent l' = userConcurrent l"
    and "globalCurrent l' = globalCurrent l"
    and "le_RetryAfter e \<in> {time_truncate now (cfg_Window (config l)) + cfg_Window (config l) - now,
                             cfg_ConcurrencyRetryAfter (config l)}"
  using assms unfolding reserveLocal_def Let_def
  by (auto split: prod.splits if_splits)

lemma reserveLocal_admit:
  assumes "reserveLocal l i now = (Inr r, l')"
  shows "config l' = config l" and "lr_identity r = i" and "lr_concurrent r"
    and "keyConcurrent l' = (keyConcurrent l)(KeyID i \<mapsto> conc (keyConcurrent l) (KeyID i) + 1)"
    and "userConcurrent l' = (userConcurrent l)(UserID i \<mapsto> conc (userConcurrent l) (UserID i) + 1)"
    and "globalCurrent l' = globalCurrent l + 1"
    and "0 < Concurrent (cfg_Key (config l)) \<Longrightarrow> conc (keyConcurrent l) (KeyID i) < Concurrent (cfg_Key (config l))"
    and "0 < Concurrent (cfg_User (config l)) \<Longrightarrow> conc (userConcurrent l) (UserID i) < Concurrent (cfg_User (config l))"
    and "0 < cfg_GlobalConcurrent (config l) \<Longrightarrow> globalCurrent l < cfg_GlobalConcurrent (config l)"
  using assms unfolding reserveLocal_def Let_def
  by (auto split: prod.splits if_splits)

lemma reserveLocal_rpm_ok:
  assumes "reserveLocal l i now = (res, l')" and "rpm_ok l"
  shows "rpm_ok l'"
proof -
  obtain kc km where k: "activeCounter (keyRPM l) (KeyID i) (time_truncate now (cfg_Window (config l))) = (kc, km)"
    by fastforce
  obtain uc um where u: "activeCounter (userRPM l) (UserID i) (time_truncate now (cfg_Window (config l))) = (uc, um)"
    by fastforce
  note ok = activeCounter_ok [OF k] activeCounter_ok [OF u]
  show ?thesis
    using assms ok unfolding reserveLocal_def Let_def k u rpm_ok_def
    by (auto split: if_splits intro!: bump_ok)
qed

lemma releaseConcurrentLocked_simps [simp]:
  "config (releaseConcurrentLocked l i) = config l"
  "keyRPM (releaseConcurrentLocked l i) = keyRPM l"
  "userRPM (releaseConcurrentLocked l i) = userRPM l"
  "keyConcurrent (releaseConcurrentLocked l i) = conc_dec (keyConcurrent l) (KeyID i)"
  "userConcurrent (releaseConcurrentLocked l i) = conc_dec (userConcurrent l) (UserID i)"
  "globalCurrent (releaseConcurrentLocked l i) = (if globalCurrent l > 0 then globalCurrent l - 1 else globalCurrent l)"
  by (simp_all add: releaseConcurrentLocked_def)

lemma rollbackLocal_simps [simp]:
  "config (rollbackLocal l r) = config l"
  "lr_concurrent r \<Longrightarrow> keyConcurrent (rollbackLocal l r) = conc_dec (keyConcurrent l) (KeyID (lr_identity r))"
  "lr_concurrent r \<Longrightarrow> userConcurrent (rollbackLocal l r) = conc_dec (userConcurrent l) (UserID (lr_identity r))"
  "lr_concurrent r \<Longrightarrow> globalCurrent (rollbackLocal l r) = (if globalCurrent l > 0 then globalCurrent l - 1 else globalCurrent l)"
  by (simp_all add: rollbackLocal_def Let_def)

lemma rollbackLocal_rpm_ok: "rpm_ok l \<Longrightarrow> rpm_ok (rollbackLocal l r)"
  by (auto simp: rpm_ok_def rollbackLocal_def Let_def intro: unbump_ok)

section \<open>Counters are exact\<close>

text \<open>A concurrency map is exact for a list of owners when it counts them and holds no zero entry.\<close>

definition exact_conc :: "(string \<Rightarrow> int option) \<Rightarrow> string list \<Rightarrow> bool" where
  "exact_conc m ks = (\<forall>k. m k = (if k \<in> set ks then Some (int (count_list ks k)) else None))"

lemma count_list_pos: "(0 < count_list xs x) = (x \<in> set xs)"
  by (metis count_list_0_iff neq0_conv)

lemma exact_conc_count:
  assumes "exact_conc m ks"
  shows "conc m k = int (count_list ks k)"
  using assms by (simp add: exact_conc_def conc_def)

lemma exact_conc_add:
  assumes "exact_conc m ks"
  shows "exact_conc (m(k \<mapsto> conc m k + 1)) (k # ks)"
  using assms exact_conc_count [OF assms, of k] by (auto simp: exact_conc_def)

lemma count_list_append_mid: "count_list (xs @ x # ys) k = count_list (xs @ ys) k + (if x = k then 1 else 0)"
  by (simp add: count_list_append)

lemma exact_conc_remove:
  assumes "exact_conc m (xs @ k # ys)"
  shows "exact_conc (conc_dec m k) (xs @ ys)"
  unfolding exact_conc_def
proof
  fix k'
  have c: "conc m k = int (count_list (xs @ ys) k) + 1"
    using exact_conc_count [OF assms, of k] by (simp only: count_list_append_mid) simp
  have m: "m k' = (if k' \<in> set (xs @ k # ys) then Some (int (count_list (xs @ k # ys) k')) else None)"
    using assms by (simp only: exact_conc_def)
  show "conc_dec m k k' = (if k' \<in> set (xs @ ys) then Some (int (count_list (xs @ ys) k')) else None)"
  proof (cases "k' = k")
    case True
    then show ?thesis using c count_list_pos [of "xs @ ys" k] by (auto simp: conc_dec_def)
  next
    case False
    then show ?thesis using m by (simp add: conc_dec_def count_list_append)
  qed
qed

lemma exact_conc_perm:
  assumes "exact_conc m ks" and "\<And>k. count_list ks' k = count_list ks k"
  shows "exact_conc m ks'"
proof -
  have "set ks' = set ks" using assms(2) count_list_0_iff by (metis set_eq_iff)
  then show ?thesis using assms by (simp add: exact_conc_def)
qed

section \<open>Interleavings\<close>

text \<open>
  The state of the process: the limiter, the durable store, the calls of \<open>Acquire\<close> that hold a local
  reservation and wait for the store, and every release closure handed out so far.
\<close>

record 'd process =
  lim_of :: Limiter
  store_of :: 'd
  pending :: "localReservation list"
  handed :: "ReleaseFunc list"

definition lease_owners :: "'d process \<Rightarrow> Identity list" where
  "lease_owners p = map lr_identity (pending p) @ map rf_identity (filter (\<lambda>f. \<not> rf_done f) (handed p))"

text \<open>
  One step of the process: a call passes or fails \<open>reserveLocal\<close>; a waiting call is admitted or refused
  by the store; a closure is called, by its owner or by the cancellation goroutine, possibly again.
\<close>

inductive process_step ::
  "('d \<Rightarrow> ctx \<Rightarrow> string \<Rightarrow> DailyReservation list \<Rightarrow> daily_error option \<times> 'd) \<Rightarrow> 'd process \<Rightarrow> 'd process \<Rightarrow> bool"
  for store_reserve where
  Reject: "reserveLocal (lim_of p) i now = (Inl e, l') \<Longrightarrow> process_step store_reserve p (p\<lparr>lim_of := l'\<rparr>)"
| Reserve: "reserveLocal (lim_of p) i now = (Inr r, l') \<Longrightarrow>
    process_step store_reserve p (p\<lparr>lim_of := l', pending := r # pending p\<rparr>)"
| AdmitNoDaily: "pending p = xs @ r # ys \<Longrightarrow> dailyReservations (lim_of p) (lr_identity r) = [] \<Longrightarrow>
    process_step store_reserve p (p\<lparr>pending := xs @ ys, handed := releaseFor (lr_identity r) # handed p\<rparr>)"
| Admit: "pending p = xs @ r # ys \<Longrightarrow> dailyReservations (lim_of p) (lr_identity r) = rs \<Longrightarrow> rs \<noteq> [] \<Longrightarrow>
    store_reserve (store_of p) c (dayAt now (day_location (lim_of p))) rs = (None, d') \<Longrightarrow>
    process_step store_reserve p
      (p\<lparr>store_of := d', pending := xs @ ys, handed := releaseFor (lr_identity r) # handed p\<rparr>)"
| Refuse: "pending p = xs @ r # ys \<Longrightarrow> dailyReservations (lim_of p) (lr_identity r) = rs \<Longrightarrow> rs \<noteq> [] \<Longrightarrow>
    store_reserve (store_of p) c (dayAt now (day_location (lim_of p))) rs = (Some e, d') \<Longrightarrow>
    process_step store_reserve p
      (p\<lparr>lim_of := rollbackLocal (lim_of p) r, store_of := d', pending := xs @ ys\<rparr>)"
| Release: "handed p = xs @ f # ys \<Longrightarrow> call_release (lim_of p) f = (l', f') \<Longrightarrow>
    process_step store_reserve p (p\<lparr>lim_of := l', handed := xs @ f' # ys\<rparr>)"

inductive_cases process_stepE: "process_step store_reserve p p'"

definition process_start :: "Limiter \<Rightarrow> 'd \<Rightarrow> 'd process" where
  "process_start l d = \<lparr>lim_of = l, store_of = d, pending = [], handed = []\<rparr>"

text \<open>The invariant: all pending reservations hold a slot, and the three counters count the owners.\<close>

definition slots_ok :: "'d process \<Rightarrow> bool" where
  "slots_ok p =
     (let l = lim_of p; cfg = config l; ids = lease_owners p in
      (\<forall>r \<in> set (pending p). lr_concurrent r)
      \<and> exact_conc (keyConcurrent l) (map KeyID ids) \<and> exact_conc (userConcurrent l) (map UserID ids)
      \<and> globalCurrent l = int (length ids)
      \<and> (\<forall>k. 0 < Concurrent (cfg_Key cfg) \<longrightarrow> int (count_list (map KeyID ids) k) \<le> Concurrent (cfg_Key cfg))
      \<and> (\<forall>u. 0 < Concurrent (cfg_User cfg) \<longrightarrow> int (count_list (map UserID ids) u) \<le> Concurrent (cfg_User cfg))
      \<and> (0 < cfg_GlobalConcurrent cfg \<longrightarrow> int (length ids) \<le> cfg_GlobalConcurrent cfg))"

lemma slots_ok_cong:
  assumes "slots_ok p" and "lim_of p' = lim_of p" and "mset (lease_owners p') = mset (lease_owners p)"
    and "\<forall>r \<in> set (pending p'). lr_concurrent r"
  shows "slots_ok p'"
proof -
  have c: "count_list (map f (lease_owners p')) k = count_list (map f (lease_owners p)) k" for f :: "Identity \<Rightarrow> string" and k
    using assms(3) by (metis count_mset mset_map)
  have "length (lease_owners p') = length (lease_owners p)" using assms(3) by (metis size_mset)
  then show ?thesis
    using assms c exact_conc_perm by (auto simp: slots_ok_def Let_def)
qed

lemma slots_ok_reserve:
  assumes "slots_ok p" and "reserveLocal (lim_of p) i now = (Inr r, l')"
  shows "slots_ok (p\<lparr>lim_of := l', pending := r # pending p\<rparr>)"
proof -
  note a = reserveLocal_admit [OF assms(2)]
  have own: "lease_owners (p\<lparr>lim_of := l', pending := r # pending p\<rparr>) = i # lease_owners p"
    by (simp add: lease_owners_def a)
  have k: "exact_conc (keyConcurrent (lim_of p)) (map KeyID (lease_owners p))"
    and u: "exact_conc (userConcurrent (lim_of p)) (map UserID (lease_owners p))"
    using assms(1) by (simp_all add: slots_ok_def Let_def)
  have "int (count_list (map KeyID (lease_owners p)) (KeyID i)) < Concurrent (cfg_Key (config (lim_of p)))"
    if "0 < Concurrent (cfg_Key (config (lim_of p)))"
    using a(7) that exact_conc_count [OF k] by simp
  moreover have "int (count_list (map UserID (lease_owners p)) (UserID i)) < Concurrent (cfg_User (config (lim_of p)))"
    if "0 < Concurrent (cfg_User (config (lim_of p)))"
    using a(8) that exact_conc_count [OF u] by simp
  ultimately show ?thesis
    using assms(1) a exact_conc_add [OF k, of "KeyID i"] exact_conc_add [OF u, of "UserID i"]
    unfolding slots_ok_def Let_def own by auto
qed

text \<open>Giving back the slot of an owner that is still counted.\<close>

lemma slots_ok_drop:
  assumes ok: "slots_ok p" and own: "mset (lease_owners p) = mset (i # lease_owners p')"
    and cfg: "config (lim_of p') = config (lim_of p)"
    and k: "keyConcurrent (lim_of p') = conc_dec (keyConcurrent (lim_of p)) (KeyID i)"
    and u: "userConcurrent (lim_of p') = conc_dec (userConcurrent (lim_of p)) (UserID i)"
    and g: "globalCurrent (lim_of p') =
      (if globalCurrent (lim_of p) > 0 then globalCurrent (lim_of p) - 1 else globalCurrent (lim_of p))"
    and pend: "\<forall>r \<in> set (pending p'). lr_concurrent r"
  shows "slots_ok p'"
proof -
  have c: "count_list (map f (lease_owners p)) x = count_list (map f (i # lease_owners p')) x"
    for f :: "Identity \<Rightarrow> string" and x using own by (metis count_mset mset_map)
  have len: "length (lease_owners p) = Suc (length (lease_owners p'))"
    using own by (metis size_mset length_Cons)
  have "exact_conc (keyConcurrent (lim_of p)) ([] @ KeyID i # map KeyID (lease_owners p'))"
    and "exact_conc (userConcurrent (lim_of p)) ([] @ UserID i # map UserID (lease_owners p'))"
    using ok c [of KeyID] c [of UserID] by (auto simp: slots_ok_def Let_def elim!: exact_conc_perm)
  then have e: "exact_conc (keyConcurrent (lim_of p')) (map KeyID (lease_owners p'))"
    "exact_conc (userConcurrent (lim_of p')) (map UserID (lease_owners p'))"
    using exact_conc_remove [of _ "[]"] by (simp_all only: k u append_Nil)
  have le: "count_list (map f (lease_owners p')) x \<le> count_list (map f (lease_owners p)) x"
    for f :: "Identity \<Rightarrow> string" and x using c [of f x] by simp
  show ?thesis
    unfolding slots_ok_def Let_def cfg
  proof (intro conjI allI impI)
    fix x
    show "int (count_list (map KeyID (lease_owners p')) x) \<le> Concurrent (cfg_Key (config (lim_of p)))"
      if "0 < Concurrent (cfg_Key (config (lim_of p)))"
      using ok that le [of KeyID x] unfolding slots_ok_def Let_def by (meson of_nat_mono order_trans)
    show "int (count_list (map UserID (lease_owners p')) x) \<le> Concurrent (cfg_User (config (lim_of p)))"
      if "0 < Concurrent (cfg_User (config (lim_of p)))"
      using ok that le [of UserID x] unfolding slots_ok_def Let_def by (meson of_nat_mono order_trans)
  qed (use e pend ok len g in \<open>auto simp: slots_ok_def Let_def\<close>)
qed

lemma slots_ok_step:
  assumes "process_step store_reserve p p'" and "slots_ok p"
  shows "slots_ok p'"
  using assms(1)
proof (cases rule: process_step.cases)
  case (Reject i now e l')
  note r = reserveLocal_reject(1-4) [OF Reject(2)]
  show ?thesis using assms(2) Reject(1) r by (simp add: slots_ok_def lease_owners_def Let_def)
next
  case (Reserve i now r l')
  then show ?thesis using slots_ok_reserve [OF assms(2)] by simp
next
  case (AdmitNoDaily xs r ys)
  then show ?thesis using assms(2)
    by (intro slots_ok_cong [OF assms(2)]) (auto simp: lease_owners_def releaseFor_def slots_ok_def Let_def)
next
  case (Admit xs r ys rs c now d')
  then show ?thesis using assms(2)
    by (intro slots_ok_cong [OF assms(2)]) (auto simp: lease_owners_def releaseFor_def slots_ok_def Let_def)
next
  case (Refuse xs r ys rs c now e d')
  have "lr_concurrent r" using assms(2) Refuse by (simp add: slots_ok_def Let_def)
  then show ?thesis using Refuse assms(2)
    by (intro slots_ok_drop [OF assms(2), of "lr_identity r"]) (auto simp: lease_owners_def slots_ok_def Let_def)
next
  case (Release xs f ys l' f')
  show ?thesis
  proof (cases "rf_done f")
    case True
    then show ?thesis using Release assms(2) by (simp add: call_release_def slots_ok_def lease_owners_def Let_def)
  next
    case False
    then show ?thesis using Release assms(2)
      by (intro slots_ok_drop [OF assms(2), of "rf_identity f"])
        (auto simp: call_release_def lease_owners_def slots_ok_def Let_def)
  qed
qed

lemma rpm_ok_step:
  assumes "process_step store_reserve p p'" and "rpm_ok (lim_of p)"
  shows "rpm_ok (lim_of p')"
  using assms(1)
proof (cases rule: process_step.cases)
  case (Release xs f ys l' f')
  then show ?thesis using assms(2) by (auto simp: call_release_def rpm_ok_def split: if_splits)
qed (use assms(2) reserveLocal_rpm_ok rollbackLocal_rpm_ok in auto)

lemma config_step: "process_step store_reserve p p' \<Longrightarrow> config (lim_of p') = config (lim_of p)"
  by (induction rule: process_step.induct)
    (auto dest: reserveLocal_reject(1) reserveLocal_admit(1) simp: call_release_def split: if_splits)

lemma process_steps:
  assumes "(process_step store_reserve)\<^sup>*\<^sup>* (process_start l d) p"
    and "New cfg = Inr l"
  shows "slots_ok p \<and> rpm_ok (lim_of p) \<and> config (lim_of p) = config l"
  using assms(1)
proof (induction rule: rtranclp_induct)
  case base
  have "keyRPM l = Map.empty" "userRPM l = Map.empty" "keyConcurrent l = Map.empty" "userConcurrent l = Map.empty"
    "globalCurrent l = 0"
    using assms(2) by (auto simp: New_def Let_def split: option.splits)
  moreover have "0 \<le> x" if "0 < x" for x :: int using that by simp
  ultimately show ?case
    by (auto simp: process_start_def slots_ok_def rpm_ok_def lease_owners_def exact_conc_def counters_ok_def Let_def)
next
  case (step p p')
  then show ?case using slots_ok_step rpm_ok_step config_step by metis
qed

section \<open>Acquiring against a store that keeps the contract\<close>

text \<open>An admission that does not need the store keeps it as it is; the others go through the contract.\<close>

context daily_store
begin

lemma acquire_inv: "inv d \<Longrightarrow> Acquire reserve l d c i now = (res, l', d') \<Longrightarrow> inv d'"
  by (auto simp: Acquire_def Let_def intro: reserve_inv split: option.splits if_splits sum.splits prod.splits)

lemma acquire_error:
  assumes "inv d" and "Acquire reserve l d c i now = (Inl e, l', d')"
    and "exact_conc (keyConcurrent l) ks" and "exact_conc (userConcurrent l) us" and "0 \<le> globalCurrent l"
  shows "keyConcurrent l' = keyConcurrent l \<and> userConcurrent l' = userConcurrent l
    \<and> globalCurrent l' = globalCurrent l \<and> usage d' = usage d"
proof -
  have undo: "conc_dec (m(k \<mapsto> conc m k + 1)) k = m" if "exact_conc m ks" for m ks k
  proof
    fix k'
    show "conc_dec (m(k \<mapsto> conc m k + 1)) k k' = m k'"
      using that count_list_pos [of ks k] exact_conc_count [OF that, of k]
      by (auto simp: conc_dec_def exact_conc_def conc_def)
  qed
  consider "l' = l" "d' = d"
    | e' where "reserveLocal l i now = (Inl e', l')" "d' = d"
    | r l1 e' where "reserveLocal l i now = (Inr r, l1)" "l' = rollbackLocal l1 r"
        "reserve d (later c) (dayAt now (day_location l1)) (dailyReservations l1 i) = (Some e', d')"
    using assms(2)
    by (auto simp: Acquire_def Let_def split: option.splits if_splits sum.splits prod.splits)
  then show ?thesis
  proof cases
    case 2
    then show ?thesis using reserveLocal_reject(2-4) [OF 2(1)] by simp
  next
    case 3
    note a = reserveLocal_admit [OF 3(1)]
    then show ?thesis
      using 3 reserve_error [OF assms(1) 3(3)] undo [OF assms(3)] undo [OF assms(4)] assms(5) by simp
  qed simp
qed

lemma acquire_success:
  assumes "inv d" and "Acquire reserve l d c i now = (Inr f, l', d')"
  shows "f = releaseFor i \<and>
    usage d' k = usage d k + (if k \<in> reserved_keys (dayAt now (day_location l)) (dailyReservations l i) then 1 else 0)"
proof -
  obtain r l1 where r: "reserveLocal l i now = (Inr r, l1)"
    and s: "dailyReservations l1 i = [] \<and> d' = d \<or>
       reserve d (later c) (dayAt now (day_location l1)) (dailyReservations l1 i) = (None, d')"
    and f: "f = releaseFor i"
    using assms(2)
    by (auto simp: Acquire_def Let_def split: option.splits if_splits sum.splits prod.splits)
  have "dailyReservations l1 i = dailyReservations l i" "day_location l1 = day_location l"
    using reserveLocal_admit(1) [OF r] by (simp_all add: dailyReservations_def day_location_def)
  then show ?thesis
    using s f reserve_success [OF assms(1), of "later c" "dayAt now (day_location l1)" "dailyReservations l1 i" d' k]
    by (auto simp: reserved_keys_def)
qed

text \<open>Daily usage of a key stays within the configured limit, whatever interleaving runs.\<close>

lemma step_daily_limit:
  assumes "process_step reserve p p'" and "inv (store_of p)"
    and "0 < RequestsPerDay (cfg_Key (config (lim_of p)))"
    and "usage (store_of p) (day, ScopeKey, k) \<le> RequestsPerDay (cfg_Key (config (lim_of p)))"
  shows "inv (store_of p') \<and> usage (store_of p') (day, ScopeKey, k) \<le> RequestsPerDay (cfg_Key (config (lim_of p)))"
proof -
  have rs: "\<forall>r \<in> set (dailyReservations (lim_of p) i). dkey day' r = (day, ScopeKey, k) \<longrightarrow>
      dr_RequestLimit r = RequestsPerDay (cfg_Key (config (lim_of p)))" for i day'
    by (auto simp: dailyReservations_def dkey_def)
  show ?thesis
    using assms(1)
  proof (cases rule: process_step.cases)
    case (Admit xs r ys rs' c now d')
    then show ?thesis
      using reserve_keeps_limit [OF assms(2) Admit(5) assms(3,4)] rs reserve_inv [OF assms(2) Admit(5)] by auto
  next
    case (Refuse xs r ys rs' c now e d')
    then show ?thesis
      using reserve_keeps_limit [OF assms(2) Refuse(5) assms(3,4)] rs reserve_inv [OF assms(2) Refuse(5)] by auto
  qed (use assms in auto)
qed

lemma steps_daily_limit:
  assumes "(process_step reserve)\<^sup>*\<^sup>* p p'" and "inv (store_of p)"
    and "0 < RequestsPerDay (cfg_Key (config (lim_of p)))"
    and "usage (store_of p) (day, ScopeKey, k) \<le> RequestsPerDay (cfg_Key (config (lim_of p)))"
  shows "inv (store_of p') \<and> config (lim_of p') = config (lim_of p) \<and>
    usage (store_of p') (day, ScopeKey, k) \<le> RequestsPerDay (cfg_Key (config (lim_of p)))"
  using assms(1)
proof (induction rule: rtranclp_induct)
  case base
  then show ?case using assms by simp
next
  case (step y z)
  then show ?case using step_daily_limit [OF step(2), of day k] config_step [OF step(2)] assms by simp
qed

end

section \<open>Every computed day is a valid one\<close>










section \<open>Properties\<close>

lemma New_config:
  assumes "New cfg = Inr l"
  shows "cfg_Key (config l) = cfg_Key cfg" "cfg_User (config l) = cfg_User cfg"
    "cfg_GlobalConcurrent (config l) = cfg_GlobalConcurrent cfg" "0 < cfg_Window (config l)"
    "0 < cfg_ConcurrencyRetryAfter (config l)"
  using assms by (auto simp: New_def Let_def validateConfig_def split: option.splits if_splits)

lemma untilNextDay_pos: "0 < untilNextDay now loc"
  by (simp add: untilNextDay_def Let_def)

lemma retryAfterSeconds_ceiling:
  assumes "0 < v"
  shows "v \<le> retryAfterSeconds v * second" and "(retryAfterSeconds v - 1) * second < v"
proof -
  define q where "q = v div second"
  define r where "r = v mod second"
  have v: "v = q * second + r" "0 \<le> r" "r < second" by (simp_all add: q_def r_def)
  have q0: "0 \<le> q" using assms by (simp add: q_def pos_imp_zdiv_nonneg_iff)
  have "retryAfterSeconds v = (if (if r \<noteq> 0 then q + 1 else q) < 1 then 1 else if r \<noteq> 0 then q + 1 else q)"
    using assms by (simp add: retryAfterSeconds_def Let_def go_quo_nonneg go_rem_nonneg q_def r_def)
  then show "v \<le> retryAfterSeconds v * second" and "(retryAfterSeconds v - 1) * second < v"
    using v q0 assms by (auto split: if_splits)
qed

lemma Acquire_limited_retry:
  assumes "Acquire store_reserve l d c i now = (Inl (Limited e), l', d')"
    and "0 < cfg_Window (config l)" and "0 < cfg_ConcurrencyRetryAfter (config l)"
  shows "0 < le_RetryAfter e"
proof -
  consider "reserveLocal l i now = (Inl e, l')"
    | l1 e' where "daily_failure l1 now e' = Limited e"
    using assms(1)
    by (auto simp: Acquire_def Let_def split: option.splits if_splits sum.splits prod.splits)
  then show ?thesis
  proof cases
    case 1
    have "0 < time_truncate now (cfg_Window (config l)) + cfg_Window (config l) - now"
      using time_truncate_bounds [OF assms(2), of now] by linarith
    then show ?thesis using reserveLocal_reject(5) [OF 1] assms(3) by auto
  next
    case 2
    then show ?thesis by (auto simp: daily_failure_def untilNextDay_pos split: daily_error.splits)
  qed
qed

text \<open>
  C3: in every interleaving of concurrent callers, rejections, rollbacks, releases and repeated
  releases, the concurrency counters of the limiter count exactly the leases that are outstanding, for
  each key, each user and globally, and never exceed the configured limits.
\<close>

theorem limiter_slots_exact:
  fixes p :: "'d process"
  assumes "New cfg = Inr l" and "(process_step store_reserve)\<^sup>*\<^sup>* (process_start l d) p"
  shows "conc (keyConcurrent (lim_of p)) k = int (count_list (map KeyID (lease_owners p)) k)
    \<and> (0 < Concurrent (cfg_Key cfg) \<longrightarrow> conc (keyConcurrent (lim_of p)) k \<le> Concurrent (cfg_Key cfg))
    \<and> conc (userConcurrent (lim_of p)) u = int (count_list (map UserID (lease_owners p)) u)
    \<and> (0 < Concurrent (cfg_User cfg) \<longrightarrow> conc (userConcurrent (lim_of p)) u \<le> Concurrent (cfg_User cfg))
    \<and> globalCurrent (lim_of p) = int (length (lease_owners p))
    \<and> (0 < cfg_GlobalConcurrent cfg \<longrightarrow> globalCurrent (lim_of p) \<le> cfg_GlobalConcurrent cfg)"
proof -
  have ok: "slots_ok p" and cfg: "config (lim_of p) = config l"
    using process_steps [OF assms(2,1)] by simp_all
  have e: "exact_conc (keyConcurrent (lim_of p)) (map KeyID (lease_owners p))"
    "exact_conc (userConcurrent (lim_of p)) (map UserID (lease_owners p))"
    using ok by (simp_all add: slots_ok_def Let_def)
  show ?thesis
    using ok exact_conc_count [OF e(1), of k] exact_conc_count [OF e(2), of u]
    by (simp add: slots_ok_def Let_def cfg New_config [OF assms(1)])
qed

definition example_identity :: Identity where
  "example_identity = \<lparr>KeyID = ''k1'', UserID = ''u1''\<rparr>"

definition example_config :: Config where
  "example_config = (DefaultConfig True)\<lparr>cfg_GlobalConcurrent := 1\<rparr>"

definition example_limiter :: Limiter where
  "example_limiter = (case New example_config of Inr l \<Rightarrow> l)"

lemma example_new: "New example_config = Inr example_limiter"
  by (simp add: example_limiter_def example_config_def New_def validateConfig_def DefaultConfig_def
      invalidLimits_def hasDailyLimits_def Let_def)

definition example_state :: "MemoryDailyStore process" where
  "example_state = (let (r, l') = reserveLocal example_limiter example_identity 0 in
     (process_start l' NewMemoryDailyStore)\<lparr>pending := [case r of Inr x \<Rightarrow> x]\<rparr>)"

lemmas example_simps = example_state_def example_limiter_def example_config_def New_def validateConfig_def
  DefaultConfig_def invalidLimits_def hasDailyLimits_def Let_def reserveLocal_def activeCounter_def
  time_truncate_def conc_def process_start_def example_identity_def

lemma example_step:
  "(process_step ReserveRequests)\<^sup>*\<^sup>* (process_start example_limiter NewMemoryDailyStore) example_state"
proof -
  obtain r l' where r: "reserveLocal example_limiter example_identity 0 = (Inr r, l')"
    by (simp add: example_simps)
  have "example_state = (process_start example_limiter NewMemoryDailyStore)\<lparr>lim_of := l', pending := [r]\<rparr>"
    by (simp add: example_state_def r process_start_def)
  moreover have "process_step ReserveRequests (process_start example_limiter NewMemoryDailyStore)
      ((process_start example_limiter NewMemoryDailyStore)\<lparr>lim_of := l',
         pending := r # pending (process_start example_limiter NewMemoryDailyStore)\<rparr>)"
    by (rule process_step.Reserve [where i = example_identity and now = 0]) (simp add: process_start_def r)
  ultimately show ?thesis by (simp add: process_start_def r_into_rtranclp)
qed

theorem limiter_slots_exact_witness:
  "globalCurrent (lim_of example_state) = int (length (lease_owners example_state))
   \<and> globalCurrent (lim_of example_state) = 1 \<and> length (lease_owners example_state) = 1"
proof -
  have "globalCurrent (lim_of example_state) = int (length (lease_owners example_state))"
    using limiter_slots_exact [OF example_new example_step] by blast
  moreover have "globalCurrent (lim_of example_state) = 1" by (simp add: example_simps)
  ultimately show ?thesis by simp
qed

text \<open>
  C21: the request rate counters a snapshot reports, for any key, user and instant of a running process,
  lie between zero and the configured limit.
\<close>

theorem snapshot_rates_within_limits:
  assumes "New cfg = Inr l" and "(process_step store_reserve)\<^sup>*\<^sup>* (process_start l d) p"
  shows "0 \<le> sn_KeyRPM (take_snapshot (lim_of p) i now) \<and> 0 \<le> sn_UserRPM (take_snapshot (lim_of p) i now)
    \<and> (0 < RequestsPerMinute (cfg_Key cfg) \<longrightarrow>
         sn_KeyRPM (take_snapshot (lim_of p) i now) \<le> RequestsPerMinute (cfg_Key cfg))
    \<and> (0 < RequestsPerMinute (cfg_User cfg) \<longrightarrow>
         sn_UserRPM (take_snapshot (lim_of p) i now) \<le> RequestsPerMinute (cfg_User cfg))"
proof -
  have "rpm_ok (lim_of p)" "config (lim_of p) = config l" using process_steps [OF assms(2,1)] by simp_all
  then show ?thesis
    unfolding rpm_ok_def counters_ok_def
    by (auto simp: take_snapshot_def Let_def window_count_def New_config [OF assms(1)] split: option.splits)
qed

theorem snapshot_rates_within_limits_witness:
  "sn_KeyRPM (take_snapshot (lim_of example_state) example_identity 0) = 1
   \<and> sn_KeyRPM (take_snapshot (lim_of example_state) example_identity 0) \<le> 30"
proof -
  have "RequestsPerMinute (cfg_Key example_config) = 30" by (simp add: example_config_def DefaultConfig_def)
  moreover have "sn_KeyRPM (take_snapshot (lim_of example_state) example_identity 0) = 1"
    by (simp add: example_simps take_snapshot_def window_count_def bump_def)
  ultimately show ?thesis
    using snapshot_rates_within_limits [OF example_new example_step, of example_identity 0] by simp
qed

text \<open>
  C6: with the in-memory store, a call of \<^verbatim>\<open>Acquire\<close> that fails for any reason (context, identity, rate,
  concurrency, daily quota, store error) leaves the concurrency counters and every daily counter as they
  were; a call that succeeds adds one to exactly the daily counters of the key and the user that have a limit.
\<close>

theorem Acquire_all_or_nothing:
  assumes "New cfg = Inr l" and "(process_step ReserveRequests)\<^sup>*\<^sup>* (process_start l d) p"
    and "Acquire ReserveRequests (lim_of p) (store_of p) c i now = (res, l', d')"
  shows "case res of
      Inl e \<Rightarrow> keyConcurrent l' = keyConcurrent (lim_of p) \<and> userConcurrent l' = userConcurrent (lim_of p)
        \<and> globalCurrent l' = globalCurrent (lim_of p) \<and> usage_of d' = usage_of (store_of p)
    | Inr f \<Rightarrow> \<forall>k. usage_of d' k = usage_of (store_of p) k
        + (if 0 < RequestsPerDay (cfg_Key cfg) \<and> k = (dayAt now (day_location (lim_of p)), ScopeKey, KeyID i)
             \<or> 0 < RequestsPerDay (cfg_User cfg) \<and> k = (dayAt now (day_location (lim_of p)), ScopeUser, UserID i) then 1 else 0)"
proof (cases res)
  case (Inl e)
  have "slots_ok p" using process_steps [OF assms(2,1)] by simp
  then show ?thesis
    using mds.acquire_error [OF _ assms(3) [unfolded Inl], of "map KeyID (lease_owners p)" "map UserID (lease_owners p)"]
    by (simp add: Inl slots_ok_def Let_def)
next
  case (Inr f)
  have "config (lim_of p) = config l" using process_steps [OF assms(2,1)] by simp
  then have "k \<in> reserved_keys day (dailyReservations (lim_of p) i) \<longleftrightarrow>
      0 < RequestsPerDay (cfg_Key cfg) \<and> k = (day, ScopeKey, KeyID i) \<or> 0 < RequestsPerDay (cfg_User cfg) \<and> k = (day, ScopeUser, UserID i)"
    for k day
    by (auto simp: reserved_keys_def dkey_def dailyReservations_def hasDailyLimits_def New_config [OF assms(1)])
  then show ?thesis using mds.acquire_success [OF _ assms(3) [unfolded Inr]] by (simp add: Inr)
qed

theorem Acquire_all_or_nothing_witness:
  "\<exists>e l'. Acquire ReserveRequests (lim_of example_state) (store_of example_state) (Ctx (\<lambda>_. None)) example_identity 0
      = (Inl e, l', store_of example_state) \<and> globalCurrent l' = 1"
proof -
  obtain e l' where a: "Acquire ReserveRequests (lim_of example_state) (store_of example_state) (Ctx (\<lambda>_. None))
      example_identity 0 = (Inl e, l', store_of example_state)"
    by (simp add: Acquire_def example_simps bump_def)
  show ?thesis
    using Acquire_all_or_nothing [OF example_new example_step a] a by (simp add: example_simps)
qed

text \<open>
  a rejection always tells the client to wait a positive time, and the \<^verbatim>\<open>Retry-After\<close> header is that
  time rounded up to whole seconds.
\<close>

lemma limit_error_retry_positive:
  assumes "New cfg = Inr l" and "(process_step store_reserve)\<^sup>*\<^sup>* (process_start l d) p"
    and "Acquire store_reserve (lim_of p) (store_of p) c i now = (Inl (Limited e), l', d')"
  shows "0 < le_RetryAfter e \<and> 1 \<le> retryAfterSeconds (le_RetryAfter e)
    \<and> (retryAfterSeconds (le_RetryAfter e) - 1) * second < le_RetryAfter e
    \<and> le_RetryAfter e \<le> retryAfterSeconds (le_RetryAfter e) * second"
proof -
  have "config (lim_of p) = config l" using process_steps [OF assms(2,1)] by simp
  then have pos: "0 < le_RetryAfter e"
    using Acquire_limited_retry [OF assms(3)] New_config [OF assms(1)] by simp
  then show ?thesis using retryAfterSeconds_ceiling [OF pos] by auto
qed

lemma limit_error_retry_positive_witness:
  "\<exists>e l' d'. Acquire ReserveRequests (lim_of example_state) (store_of example_state) (Ctx (\<lambda>_. None)) example_identity 0
      = (Inl (Limited e), l', d') \<and> 0 < le_RetryAfter e"
proof -
  obtain e l' d' where a: "Acquire ReserveRequests (lim_of example_state) (store_of example_state) (Ctx (\<lambda>_. None))
      example_identity 0 = (Inl (Limited e), l', d')"
    by (simp add: Acquire_def example_simps bump_def)
  show ?thesis using limit_error_retry_positive [OF example_new example_step a] a by blast
qed



end
