(* ===== verification/Pricing.thy ===== *)
theory Pricing
  imports Amount "HOL-Library.Multiset"
begin

text \<open>
  The operator's price catalogue, \<^verbatim>\<open>internal/config/pricing.go\<close> and \<^verbatim>\<open>internal/config/model_prices.go\<close>:
  its validation, the snapshot taken at admission, the choice of the price that applies to a finished
  request with its conservative fallbacks, and administrator overrides. A Go map is a list of entries
  with distinct keys in some iteration order; the results are shown not to depend on that order. The
  text of an error is not modelled, only which check failed; where the code ranges over a map and several
  entries are wrong, the error is that of one of them.
\<close>

section \<open>Types\<close>

abbreviation PricingSchemaV1 :: int where "PricingSchemaV1 \<equiv> 1"
abbreviation PricingSchemaV2 :: int where "PricingSchemaV2 \<equiv> 2"
abbreviation maxUsagePricingModels :: nat where "maxUsagePricingModels \<equiv> 1000"
abbreviation CacheWriteSeparate :: string where "CacheWriteSeparate \<equiv> ''separate''"
abbreviation CacheWriteSeparateByTTL :: string where "CacheWriteSeparateByTTL \<equiv> ''separate_by_ttl''"
abbreviation CacheWriteIncludedInInput :: string where "CacheWriteIncludedInInput \<equiv> ''included_in_input''"
abbreviation PricingTierStandard :: string where "PricingTierStandard \<equiv> ''standard''"
abbreviation PricingTierFlex :: string where "PricingTierFlex \<equiv> ''flex''"
abbreviation PricingTierFast :: string where "PricingTierFast \<equiv> ''fast''"
abbreviation PricingTierMaxPublished :: string where "PricingTierMaxPublished \<equiv> ''max_published''"
abbreviation ContextClassShort :: string where "ContextClassShort \<equiv> ''short''"
abbreviation ContextClassLong :: string where "ContextClassLong \<equiv> ''long''"
abbreviation FallbackUnknownServiceTier :: string where "FallbackUnknownServiceTier \<equiv> ''unknown_service_tier''"
abbreviation FallbackMissingServiceTier :: string where "FallbackMissingServiceTier \<equiv> ''missing_service_tier''"
abbreviation FallbackMissingPriceCombination :: string where
  "FallbackMissingPriceCombination \<equiv> ''missing_price_combination''"
abbreviation FallbackMaxPublished :: string where "FallbackMaxPublished \<equiv> ''max_published''"
abbreviation FallbackAllUncachedAsWrite :: string where "FallbackAllUncachedAsWrite \<equiv> ''all_uncached_as_write''"

record PricingFallbackPolicy =
  UnknownServiceTier :: string
  MissingPriceCombination :: string
  MissingCacheWriteTokens :: string

record TokenPricing =
  tp_Input :: string
  tp_CachedInput :: string
  tp_CacheWrite :: "string option"
  tp_CacheWrite5m :: "string option"
  tp_CacheWrite1h :: "string option"
  tp_Output :: string

record ServiceTierPricing =
  Short :: "TokenPricing option"
  Long :: "TokenPricing option"

record ModelPricing =
  mp_Input :: string
  mp_CachedInput :: string
  mp_Output :: string
  CacheWriteMode :: string
  MaxInputTokens :: go_int64
  LongContextThresholdTokens :: go_int64
  ServiceTiers :: "(string \<times> ServiceTierPricing) list"

record UsagePricing =
  up_SchemaVersion :: int
  CatalogAsOf :: string
  FXAsOf :: string
  USDCNYRate :: string
  up_FallbackPolicy :: PricingFallbackPolicy
  Models :: "(string \<times> ModelPricing) list"

record PricingSnapshot =
  ps_SchemaVersion :: int
  ps_FallbackPolicy :: PricingFallbackPolicy
  ps_Model :: string
  ps_Rule :: ModelPricing

record PricingDecision =
  PricingServiceTier :: string
  ContextClass :: string
  pd_Input :: string
  pd_CachedInput :: string
  pd_CacheWrite :: string
  pd_CacheWrite5m :: string
  pd_CacheWrite1h :: string
  pd_Output :: string
  FallbackReason :: string

text \<open>The failed checks; \<open>NilPricePanic\<close> is the run-time panic of a nil pointer dereference.\<close>

datatype pricing_error =
    PricingSchemaInvalid | CatalogDateInvalid | FXDateInvalid | RateInvalid decimal_error
  | NoModels | TooManyModels | V1FallbackPolicy | FallbackPolicyInvalid | ModelNameInvalid
  | FieldOfOtherSchema string | MixedFields string | PriceInvalid string decimal_error
  | CacheWriteModeInvalid string | TokenBoundariesInvalid string | NoServiceTiers string
  | ServiceTierInvalid string string | NoContextPrice string string
  | CacheWritePriceRequired string | CacheWritePriceForbidden string
  | SnapshotHeaderInvalid | NegativeInputTokens | NoPublishedPrices | NilPricePanic
  | TierNotConfigured string | ModelNotConfigured string | InternalPricingFixed
  | UnsupportedSchema | StructureReadOnly

section \<open>Validation\<close>

text \<open>The byte class and length of \<^verbatim>\<open>^[A-Za-z0-9._:-]{1,128}$\<close>.\<close>

definition model_name_char :: "char \<Rightarrow> bool" where
  "model_name_char c =
     (let n = (of_char c :: nat) in
      65 \<le> n \<and> n \<le> 90 \<or> 97 \<le> n \<and> n \<le> 122 \<or> 48 \<le> n \<and> n \<le> 57 \<or> c \<in> {CHR ''.'', CHR ''_'', CHR '':'', CHR ''-''})"

definition usagePricingModelPattern :: "string \<Rightarrow> bool" where
  "usagePricingModelPattern s = (1 \<le> length s \<and> length s \<le> 128 \<and> list_all model_name_char s)"

definition validateV2FallbackPolicy :: "PricingFallbackPolicy \<Rightarrow> pricing_error option" where
  "validateV2FallbackPolicy policy =
     (if UnknownServiceTier policy \<noteq> FallbackMaxPublished then Some FallbackPolicyInvalid
      else if MissingPriceCombination policy \<noteq> FallbackMaxPublished then Some FallbackPolicyInvalid
      else if MissingCacheWriteTokens policy \<noteq> FallbackAllUncachedAsWrite then Some FallbackPolicyInvalid
      else None)"

definition validateModelPricingFieldPresence :: "int \<Rightarrow> string \<Rightarrow> string list \<Rightarrow> pricing_error option" where
  "validateModelPricingFieldPresence schemaVersion model names =
     (let v1Fields = [''input_usd_per_million'', ''cached_input_usd_per_million'', ''output_usd_per_million''];
          v2Fields = [''cache_write_mode'', ''max_input_tokens'', ''long_context_threshold_tokens'', ''service_tiers''] in
      if (\<exists>f \<in> set v1Fields. f \<in> set names \<and> schemaVersion = PricingSchemaV2) then Some (FieldOfOtherSchema model)
      else if (\<exists>f \<in> set v2Fields. f \<in> set names \<and> schemaVersion = PricingSchemaV1) then Some (FieldOfOtherSchema model)
      else None)"

fun check_prices :: "string \<Rightarrow> string list \<Rightarrow> pricing_error option" where
  "check_prices model [] = None"
| "check_prices model (v # vs) =
     (case ParsePrice v of Inl e \<Rightarrow> Some (PriceInvalid model e) | Inr _ \<Rightarrow> check_prices model vs)"

definition validateV1ModelPricing :: "string \<Rightarrow> ModelPricing \<Rightarrow> pricing_error option" where
  "validateV1ModelPricing model price =
     (if CacheWriteMode price \<noteq> [] \<or> MaxInputTokens price \<noteq> 0 \<or> LongContextThresholdTokens price \<noteq> 0
         \<or> ServiceTiers price \<noteq> [] then Some (MixedFields model)
      else check_prices model [mp_Input price, mp_CachedInput price, mp_Output price])"

definition validateTokenPricing :: "string \<Rightarrow> string \<Rightarrow> TokenPricing \<Rightarrow> pricing_error option" where
  "validateTokenPricing model cacheWriteMode price =
     (case check_prices model [tp_Input price, tp_CachedInput price, tp_Output price] of
        Some e \<Rightarrow> Some e
      | None \<Rightarrow>
          (case (if cacheWriteMode = CacheWriteSeparate
                 then (case tp_CacheWrite price of None \<Rightarrow> Some (CacheWritePriceRequired model)
                       | Some v \<Rightarrow> check_prices model [v])
                 else if tp_CacheWrite price \<noteq> None then Some (CacheWritePriceForbidden model) else None) of
             Some e \<Rightarrow> Some e
           | None \<Rightarrow>
               if cacheWriteMode = CacheWriteSeparateByTTL
               then (case (tp_CacheWrite5m price, tp_CacheWrite1h price) of
                       (Some v, Some w) \<Rightarrow> check_prices model [v, w]
                     | _ \<Rightarrow> Some (CacheWritePriceRequired model))
               else if tp_CacheWrite5m price \<noteq> None \<or> tp_CacheWrite1h price \<noteq> None
               then Some (CacheWritePriceForbidden model)
               else None))"

definition validate_context :: "string \<Rightarrow> string \<Rightarrow> TokenPricing option \<Rightarrow> pricing_error option" where
  "validate_context model mode p = (case p of None \<Rightarrow> None | Some q \<Rightarrow> validateTokenPricing model mode q)"

fun validate_tiers :: "string \<Rightarrow> string \<Rightarrow> (string \<times> ServiceTierPricing) list \<Rightarrow> pricing_error option" where
  "validate_tiers model mode [] = None"
| "validate_tiers model mode ((tier, contexts) # rest) =
     (if tier \<noteq> PricingTierStandard \<and> tier \<noteq> PricingTierFlex \<and> tier \<noteq> PricingTierFast
      then Some (ServiceTierInvalid model tier)
      else if Short contexts = None \<and> Long contexts = None then Some (NoContextPrice model tier)
      else case validate_context model mode (Short contexts) of
             Some e \<Rightarrow> Some e
           | None \<Rightarrow>
               (case validate_context model mode (Long contexts) of
                  Some e \<Rightarrow> Some e
                | None \<Rightarrow> validate_tiers model mode rest))"

definition validateV2ModelPricing :: "string \<Rightarrow> ModelPricing \<Rightarrow> pricing_error option" where
  "validateV2ModelPricing model price =
     (if mp_Input price \<noteq> [] \<or> mp_CachedInput price \<noteq> [] \<or> mp_Output price \<noteq> [] then Some (MixedFields model)
      else if CacheWriteMode price \<noteq> CacheWriteSeparate \<and> CacheWriteMode price \<noteq> CacheWriteSeparateByTTL
              \<and> CacheWriteMode price \<noteq> CacheWriteIncludedInInput then Some (CacheWriteModeInvalid model)
      else if MaxInputTokens price \<le> 0 \<or> LongContextThresholdTokens price \<le> 0
              \<or> LongContextThresholdTokens price > MaxInputTokens price then Some (TokenBoundariesInvalid model)
      else if ServiceTiers price = [] then Some (NoServiceTiers model)
      else validate_tiers model (CacheWriteMode price) (ServiceTiers price))"

text \<open>
  \<^verbatim>\<open>ParseUsagePricing\<close> after the text has been decoded: \<open>pricing\<close> is the decoded value, \<open>modelFields\<close>
  the member names each model object spelled out and \<open>fallbackPolicyPresent\<close> whether the document has a
  \<^verbatim>\<open>fallback_policy\<close>.
\<close>

fun validate_models :: "int \<Rightarrow> (string \<Rightarrow> string list) \<Rightarrow> (string \<times> ModelPricing) list \<Rightarrow> pricing_error option" where
  "validate_models v modelFields [] = None"
| "validate_models v modelFields ((model, price) # rest) =
     (if \<not> usagePricingModelPattern model then Some ModelNameInvalid
      else case validateModelPricingFieldPresence v model (modelFields model) of
        Some e \<Rightarrow> Some e
      | None \<Rightarrow>
          (case (if v = PricingSchemaV1 then validateV1ModelPricing model price else validateV2ModelPricing model price) of
             Some e \<Rightarrow> Some e
           | None \<Rightarrow> validate_models v modelFields rest))"

definition ParseUsagePricing :: "UsagePricing \<Rightarrow> (string \<Rightarrow> string list) \<Rightarrow> bool \<Rightarrow> pricing_error + UsagePricing" where
  "ParseUsagePricing decoded modelFields fallbackPolicyPresent =
     (let pricing = (if up_SchemaVersion decoded = 0 then decoded\<lparr>up_SchemaVersion := PricingSchemaV1\<rparr> else decoded);
          v = up_SchemaVersion pricing in
      if v \<noteq> PricingSchemaV1 \<and> v \<noteq> PricingSchemaV2 then Inl PricingSchemaInvalid
      else if \<not> parses_date (CatalogAsOf pricing) then Inl CatalogDateInvalid
      else if \<not> parses_date (FXAsOf pricing) then Inl FXDateInvalid
      else case ParseRate (USDCNYRate pricing) of
        Inl e \<Rightarrow> Inl (RateInvalid e)
      | Inr _ \<Rightarrow>
          if length (Models pricing) = 0 then Inl NoModels
          else if length (Models pricing) > maxUsagePricingModels then Inl TooManyModels
          else
            (case (if v = PricingSchemaV1 then (if fallbackPolicyPresent then Some V1FallbackPolicy else None)
                   else validateV2FallbackPolicy (up_FallbackPolicy pricing)) of
               Some e \<Rightarrow> Inl e
             | None \<Rightarrow>
                 (case validate_models v modelFields (Models pricing) of
                    Some e \<Rightarrow> Inl e
                  | None \<Rightarrow> Inr pricing)))"

section \<open>Snapshots\<close>

text \<open>\<^verbatim>\<open>ModelSnapshot\<close> returns the rule and, for schema 2, the value that is then encoded as JSON.\<close>

definition ModelSnapshot :: "UsagePricing \<Rightarrow> string \<Rightarrow> (PricingSnapshot option \<times> ModelPricing) option" where
  "ModelSnapshot p model =
     (case map_of (Models p) model of
        None \<Rightarrow> None
      | Some rule \<Rightarrow>
          if up_SchemaVersion p \<noteq> PricingSchemaV2 then Some (None, rule)
          else Some (Some \<lparr>ps_SchemaVersion = PricingSchemaV2, ps_FallbackPolicy = up_FallbackPolicy p,
                          ps_Model = model, ps_Rule = rule\<rparr>, rule))"

definition ParsePricingSnapshot :: "PricingSnapshot \<Rightarrow> string list \<Rightarrow> pricing_error + PricingSnapshot" where
  "ParsePricingSnapshot snapshot ruleFields =
     (if ps_SchemaVersion snapshot \<noteq> PricingSchemaV2 \<or> \<not> usagePricingModelPattern (ps_Model snapshot)
      then Inl SnapshotHeaderInvalid
      else case validateModelPricingFieldPresence PricingSchemaV2 (ps_Model snapshot) ruleFields of
        Some e \<Rightarrow> Inl e
      | None \<Rightarrow>
          (case validateV2FallbackPolicy (ps_FallbackPolicy snapshot) of
             Some e \<Rightarrow> Inl e
           | None \<Rightarrow>
               (case validateV2ModelPricing (ps_Model snapshot) (ps_Rule snapshot) of
                  Some e \<Rightarrow> Inl e
                | None \<Rightarrow> Inr snapshot)))"

section \<open>Choosing a price\<close>

definition NormalizeServiceTier :: "string \<Rightarrow> string option" where
  "NormalizeServiceTier v =
     (let t = to_lower (trim_space v) in
      if t = ''default'' \<or> t = ''standard'' then Some PricingTierStandard
      else if t = ''flex'' then Some PricingTierFlex
      else if t = ''priority'' \<or> t = ''fast'' then Some PricingTierFast
      else None)"

definition ValidateRequestedServiceTier :: "UsagePricing \<Rightarrow> string \<Rightarrow> string \<Rightarrow> pricing_error option" where
  "ValidateRequestedServiceTier p model raw =
     (if trim_space raw = [] then None
      else case NormalizeServiceTier raw of
        None \<Rightarrow> Some (TierNotConfigured raw)
      | Some tier \<Rightarrow>
          (case map_of (Models p) model of
             None \<Rightarrow> Some (ModelNotConfigured model)
           | Some rule \<Rightarrow>
               if up_SchemaVersion p = PricingSchemaV1
               then (if tier \<noteq> PricingTierStandard then Some (TierNotConfigured raw) else None)
               else if map_of (ServiceTiers rule) tier = None then Some (TierNotConfigured raw) else None))"

definition AppendFallbackReason :: "string \<Rightarrow> string \<Rightarrow> string" where
  "AppendFallbackReason existing reason =
     (if reason = [] then existing
      else join_with '','' (sort (remdups (filter (\<lambda>v. v \<noteq> []) (split_on CHR '','' existing) @ [reason]))))"

text \<open>
  The comparison key of \<^verbatim>\<open>maxDecimal\<close>: \<^verbatim>\<open>%018s\<close> pads the integer digits with zeros on the left,
  \<^verbatim>\<open>%-012s\<close> pads the fraction with spaces on the right.
\<close>

definition decimal_parts :: "string \<Rightarrow> string" where
  "decimal_parts s =
     (let i = takeWhile (\<lambda>c. c \<noteq> CHR ''.'') s; f = drop (Suc (length i)) s in
      replicate (18 - length i) CHR ''0'' @ i @ f @ replicate (12 - length f) CHR '' '')"

definition canonical_price :: "string \<Rightarrow> string" where
  "canonical_price v = (case ParsePrice v of Inl _ \<Rightarrow> [] | Inr c \<Rightarrow> c)"

definition maxDecimal :: "string \<Rightarrow> string \<Rightarrow> string" where
  "maxDecimal left right =
     (let l = canonical_price left; r = canonical_price right in
      if decimal_parts r > decimal_parts l then r else l)"

definition max_opt :: "string \<Rightarrow> string option \<Rightarrow> string" where
  "max_opt m v = (case v of None \<Rightarrow> m | Some w \<Rightarrow> maxDecimal m w)"

definition componentMaximum :: "TokenPricing list \<Rightarrow> string \<Rightarrow> TokenPricing option" where
  "componentMaximum values cacheWriteMode =
     (if values = [] then None
      else
        let cw = foldl (\<lambda>m v. max_opt m (tp_CacheWrite v)) ''0'' values;
            cw5 = foldl (\<lambda>m v. max_opt m (tp_CacheWrite5m v)) ''0'' values;
            cw1 = foldl (\<lambda>m v. max_opt m (tp_CacheWrite1h v)) ''0'' values in
        Some \<lparr> tp_Input = foldl (\<lambda>m v. maxDecimal m (tp_Input v)) ''0'' values,
               tp_CachedInput = foldl (\<lambda>m v. maxDecimal m (tp_CachedInput v)) ''0'' values,
               tp_CacheWrite = (if cacheWriteMode = CacheWriteSeparate then Some cw else None),
               tp_CacheWrite5m = (if cacheWriteMode = CacheWriteSeparateByTTL then Some cw5 else None),
               tp_CacheWrite1h = (if cacheWriteMode = CacheWriteSeparateByTTL then Some cw1 else None),
               tp_Output = foldl (\<lambda>m v. maxDecimal m (tp_Output v)) ''0'' values \<rparr>)"

definition contextPrice :: "ServiceTierPricing \<Rightarrow> string \<Rightarrow> TokenPricing option" where
  "contextPrice v contextClass = (if contextClass = ContextClassLong then Long v else Short v)"

definition opt_list :: "'a option \<Rightarrow> 'a list" where
  "opt_list x = (case x of None \<Rightarrow> [] | Some a \<Rightarrow> [a])"

definition published_for_context :: "ModelPricing \<Rightarrow> string \<Rightarrow> TokenPricing list" where
  "published_for_context rule contextClass =
     concat (map (\<lambda>(_, tier). opt_list (contextPrice tier contextClass)) (ServiceTiers rule))"

definition published :: "ModelPricing \<Rightarrow> TokenPricing list" where
  "published rule = concat (map (\<lambda>(_, tier). opt_list (Short tier) @ opt_list (Long tier)) (ServiceTiers rule))"

definition maxPublishedForContext :: "ModelPricing \<Rightarrow> string \<Rightarrow> TokenPricing option" where
  "maxPublishedForContext rule contextClass =
     componentMaximum (published_for_context rule contextClass) (CacheWriteMode rule)"

definition maxPublished :: "ModelPricing \<Rightarrow> TokenPricing option" where
  "maxPublished rule = componentMaximum (published rule) (CacheWriteMode rule)"

definition applied_prices :: "string \<Rightarrow> string \<Rightarrow> string \<Rightarrow> string \<Rightarrow> TokenPricing \<Rightarrow> pricing_error + PricingDecision" where
  "applied_prices mode tier contextClass reason selected =
     (let d = \<lparr> PricingServiceTier = tier, ContextClass = contextClass, pd_Input = tp_Input selected,
               pd_CachedInput = tp_CachedInput selected,
               pd_CacheWrite = (case tp_CacheWrite selected of None \<Rightarrow> ''0'' | Some v \<Rightarrow> v),
               pd_CacheWrite5m = [], pd_CacheWrite1h = [], pd_Output = tp_Output selected,
               FallbackReason = reason \<rparr> in
      if mode = CacheWriteSeparateByTTL
      then (case (tp_CacheWrite5m selected, tp_CacheWrite1h selected) of
              (Some v, Some w) \<Rightarrow>
                Inr (d\<lparr>pd_CacheWrite5m := v, pd_CacheWrite1h := w, pd_CacheWrite := maxDecimal v w\<rparr>)
            | _ \<Rightarrow> Inl NilPricePanic)
      else Inr d)"

definition Select :: "PricingSnapshot \<Rightarrow> string \<Rightarrow> go_int64 \<Rightarrow> pricing_error + PricingDecision" where
  "Select s actualServiceTier inputTokens =
     (if inputTokens < 0 then Inl NegativeInputTokens
      else
        let rule = ps_Rule s;
            contextClass = (if inputTokens > LongContextThresholdTokens rule then ContextClassLong else ContextClassShort);
            overMaximum = (inputTokens > MaxInputTokens rule);
            reason0 = (if overMaximum then AppendFallbackReason [] FallbackMissingPriceCombination else []);
            missingTier = (trim_space actualServiceTier = []);
            normalized = (if missingTier then None else NormalizeServiceTier actualServiceTier);
            unknownTier = (\<not> missingTier \<and> normalized = None);
            reason1 = (if missingTier then AppendFallbackReason reason0 FallbackMissingServiceTier
                       else if unknownTier then AppendFallbackReason reason0 FallbackUnknownServiceTier
                       else reason0);
            tier = (case normalized of None \<Rightarrow> [] | Some t \<Rightarrow> t);
            direct = (\<not> overMaximum \<and> \<not> missingTier \<and> \<not> unknownTier);
            selected = (if direct then (case map_of (ServiceTiers rule) tier of None \<Rightarrow> None
                                        | Some contexts \<Rightarrow> contextPrice contexts contextClass) else None);
            reason2 = (if direct \<and> selected = None
                       then AppendFallbackReason reason1 FallbackMissingPriceCombination else reason1) in
        case selected of
          Some p \<Rightarrow> applied_prices (CacheWriteMode rule) tier contextClass reason2 p
        | None \<Rightarrow>
            (case (if \<not> overMaximum \<and> (missingTier \<or> unknownTier)
                   then maxPublishedForContext rule contextClass else None) of
               Some p \<Rightarrow> applied_prices (CacheWriteMode rule) PricingTierMaxPublished contextClass reason2 p
             | None \<Rightarrow>
                 (case maxPublished rule of
                    None \<Rightarrow> Inl NoPublishedPrices
                  | Some p \<Rightarrow> applied_prices (CacheWriteMode rule) PricingTierMaxPublished contextClass
                      (AppendFallbackReason reason2 FallbackMissingPriceCombination) p)))"

section \<open>Administrator overrides\<close>

definition blank_context :: "TokenPricing \<Rightarrow> TokenPricing" where
  "blank_context p =
     \<lparr> tp_Input = [], tp_CachedInput = [],
       tp_CacheWrite = map_option (\<lambda>_. []) (tp_CacheWrite p),
       tp_CacheWrite5m = map_option (\<lambda>_. []) (tp_CacheWrite5m p),
       tp_CacheWrite1h = map_option (\<lambda>_. []) (tp_CacheWrite1h p), tp_Output = [] \<rparr>"



definition canonical_context :: "TokenPricing \<Rightarrow> TokenPricing" where
  "canonical_context p =
     p\<lparr> tp_Input := canonical_price (tp_Input p), tp_CachedInput := canonical_price (tp_CachedInput p),
        tp_Output := canonical_price (tp_Output p),
        tp_CacheWrite := map_option canonical_price (tp_CacheWrite p),
        tp_CacheWrite5m := map_option canonical_price (tp_CacheWrite5m p),
        tp_CacheWrite1h := map_option canonical_price (tp_CacheWrite1h p) \<rparr>"






section \<open>Comparing canonical prices as padded strings\<close>

lemma digit_less_char: "is_digit c \<Longrightarrow> is_digit d \<Longrightarrow> (c < d) = (digit_val c < digit_val d)"
  by (auto simp: less_char_def is_digit_def digit_val_def)

lemma digit_eq_val: "is_digit c \<Longrightarrow> is_digit d \<Longrightarrow> (c = d) = (digit_val c = digit_val d)"
  using digit_less_char [of c d] digit_less_char [of d c] by force

lemma lex_step:
  fixes a b m n k :: nat
  assumes "m < k" "n < k"
  shows "(a * k + m < b * k + n) = (a < b \<or> a = b \<and> m < n)"
proof -
  have "a * k + m < b * k + n" if "a < b"
  proof -
    have "(a + 1) * k \<le> b * k" using that by (intro mult_le_mono1) simp
    then show ?thesis using assms by simp
  qed
  moreover have "b * k + n < a * k + m" if "b < a"
  proof -
    have "(b + 1) * k \<le> a * k" using that by (intro mult_le_mono1) simp
    then show ?thesis using assms by simp
  qed
  ultimately show ?thesis by (cases a b rule: linorder_cases) auto
qed

lemma lex_digits:
  assumes "length a = length b" and "all_digits a" and "all_digits b"
  shows "(a @ s < b @ t) = (digits_val a < digits_val b \<or> a = b \<and> s < t)"
  using assms
proof (induction a b rule: list_induct2)
  case (Cons c a d b)
  then have d: "is_digit c" "is_digit d" "all_digits a" "all_digits b" by simp_all
  have lt: "digits_val a < 10 ^ length a" "digits_val b < 10 ^ length a"
    using digits_val_less [OF d(3)] digits_val_less [OF d(4)] Cons.hyps by simp_all
  have "(digits_val (c # a) < digits_val (d # b)) = (digit_val c < digit_val d \<or> digit_val c = digit_val d \<and> digits_val a < digits_val b)"
    using lex_step [OF lt] Cons.hyps by (simp add: digits_val_Cons)
  then show ?case
    using Cons.IH d digit_less_char [OF d(1,2)] digit_eq_val [OF d(1,2)] by auto
qed (simp add: digits_val_def)

abbreviation no_trailing0 :: "string \<Rightarrow> bool" where
  "no_trailing0 f \<equiv> f = [] \<or> last f \<noteq> CHR ''0''"

lemma lex_fractions:
  assumes "length f \<le> n" "length g \<le> n" "all_digits f" "all_digits g" "no_trailing0 f" "no_trailing0 g"
  shows "(f @ replicate (n - length f) CHR '' '' < g @ replicate (n - length g) CHR '' '')
    = (digits_val f * 10 ^ (n - length f) < digits_val g * 10 ^ (n - length g))"
  using assms
proof (induction n arbitrary: f g)
  case (Suc n)
  have pos: "0 < digits_val (c # h)" if "all_digits (c # h)" "last (c # h) \<noteq> CHR ''0''" for c h
    using digits_val_eq_0 [OF that(1)] that(2) last_in_set [of "c # h"] by fastforce
  have sp: "CHR '' '' < c" "\<not> c < CHR '' ''" "c \<noteq> CHR '' ''" if "is_digit c" for c
    using that by (auto simp: less_char_def is_digit_def)
  have bound: "digits_val h * 10 ^ (n - length h) < 10 ^ n" if "all_digits h" "length h \<le> n" for h
  proof -
    have "digits_val h * 10 ^ (n - length h) < 10 ^ length h * 10 ^ (n - length h)"
      using digits_val_less [OF that(1)] by simp
    also have "\<dots> = 10 ^ n" using that(2) by (simp flip: power_add)
    finally show ?thesis .
  qed
  show ?case
  proof (cases f)
    case Nil
    then show ?thesis
    proof (cases g)
      case (Cons d g')
      then show ?thesis using Nil Suc.prems pos [of d g'] sp [of d] by (simp add: digits_val_def)
    qed (simp add: digits_val_def)
  next
    case f: (Cons c f')
    show ?thesis
    proof (cases g)
      case Nil
      then show ?thesis using f Suc.prems sp [of c] by (simp add: digits_val_def)
    next
      case g: (Cons d g')
      have d: "is_digit c" "is_digit d" "all_digits f'" "all_digits g'" "length f' \<le> n" "length g' \<le> n"
        using Suc.prems f g by simp_all
      have tr: "no_trailing0 f'" "no_trailing0 g'" using Suc.prems(5,6) f g by (auto split: if_splits)
      have e: "digits_val (c # f') * 10 ^ (n - length f') = digit_val c * 10 ^ n + digits_val f' * 10 ^ (n - length f')"
        "digits_val (d # g') * 10 ^ (n - length g') = digit_val d * 10 ^ n + digits_val g' * 10 ^ (n - length g')"
        using d by (simp_all add: digits_val_Cons distrib_right mult.assoc flip: power_add)
      have "(f @ replicate (Suc n - length f) CHR '' '' < g @ replicate (Suc n - length g) CHR '' '')
          = (c < d \<or> c = d \<and> f' @ replicate (n - length f') CHR '' '' < g' @ replicate (n - length g') CHR '' '')"
        by (simp add: f g)
      also have "\<dots> = (digit_val c < digit_val d \<or> digit_val c = digit_val d \<and>
          digits_val f' * 10 ^ (n - length f') < digits_val g' * 10 ^ (n - length g'))"
        unfolding Suc.IH [OF d(5,6,3,4) tr] digit_less_char [OF d(1,2)] digit_eq_val [OF d(1,2)] ..
      also have "\<dots> = (digits_val (c # f') * 10 ^ (n - length f') < digits_val (d # g') * 10 ^ (n - length g'))"
        unfolding e by (rule lex_step [OF bound [OF d(3,5)] bound [OF d(4,6)], symmetric])
      finally show ?thesis by (simp add: f g)
    qed
  qed
qed simp

lemma decimal_parts_literal:
  assumes "all_digits i" and "all_digits f"
  shows "decimal_parts (dec_literal i f) = (replicate (18 - length i) CHR ''0'' @ i) @ f @ replicate (12 - length f) CHR '' ''"
proof -
  have "takeWhile (\<lambda>c. c \<noteq> CHR ''.'') (dec_literal i f) = i"
  proof -
    have dg: "\<forall>c \<in> set i. c \<noteq> CHR ''.''" using assms(1) by (auto simp: all_digits_set is_digit_def)
    then show ?thesis by (auto simp: dec_literal_def takeWhile_append2)
  qed
  then show ?thesis by (auto simp: decimal_parts_def Let_def dec_literal_def)
qed

lemma decimal_parts_less:
  assumes i: "canonical_nat i" "length i \<le> 18" and j: "canonical_nat j" "length j \<le> 18"
    and f: "all_digits f" "length f \<le> 12" "no_trailing0 f" and g: "all_digits g" "length g \<le> 12" "no_trailing0 g"
  shows "(decimal_parts (dec_literal i f) < decimal_parts (dec_literal j g)) = (dec_rat i f < dec_rat j g)"
proof -
  have di: "all_digits i" "all_digits j" using i j by (simp_all add: canonical_nat_def)
  let ?f = "digits_val f * 10 ^ (12 - length f)" and ?g = "digits_val g * 10 ^ (12 - length g)"
  have ib: "?f < 10 ^ 12" "?g < 10 ^ 12"
  proof -
    have "digits_val h * 10 ^ (12 - length h) < 10 ^ 12" if "all_digits h" "length h \<le> 12" for h
    proof -
      have "digits_val h * 10 ^ (12 - length h) < 10 ^ length h * 10 ^ (12 - length h)"
        using digits_val_less [OF that(1)] by simp
      also have "\<dots> = (10 ^ 12 :: nat)" using that(2) by (simp flip: power_add)
      finally show ?thesis .
    qed
    then show "?f < 10 ^ 12" "?g < 10 ^ 12" using f g by blast+
  qed
  have scale: "dec_rat h k * 10 ^ 12 = of_nat (digits_val h * 10 ^ 12 + digits_val k * 10 ^ (12 - length k))"
    if "length k \<le> 12" for h k
  proof -
    have p: "(10 :: rat) ^ 12 = 10 ^ length k * 10 ^ (12 - length k)" using that by (simp flip: power_add)
    have q: "(10 :: nat) ^ 12 = 10 ^ length k * 10 ^ (12 - length k)" using that by (simp flip: power_add)
    show ?thesis by (simp only: dec_rat_def digits_val_append p q) (simp add: field_simps)
  qed
  have "(dec_rat i f < dec_rat j g) = (dec_rat i f * 10 ^ 12 < dec_rat j g * 10 ^ 12)"
    by (subst mult_less_cancel_right_pos) simp_all
  also have "\<dots> = (digits_val i * 10 ^ 12 + ?f < digits_val j * 10 ^ 12 + ?g)"
    by (simp only: scale [OF f(2)] scale [OF g(2)] of_nat_less_iff)
  also have "\<dots> = (digits_val i < digits_val j \<or> digits_val i = digits_val j \<and> ?f < ?g)"
    by (rule lex_step [OF ib])
  finally have rat: "(dec_rat i f < dec_rat j g) = (digits_val i < digits_val j \<or> digits_val i = digits_val j \<and> ?f < ?g)" .
  let ?a = "replicate (18 - length i) CHR ''0'' @ i" and ?b = "replicate (18 - length j) CHR ''0'' @ j"
  have "(decimal_parts (dec_literal i f) < decimal_parts (dec_literal j g))
      = (digits_val ?a < digits_val ?b \<or> ?a = ?b \<and> ?f < ?g)"
    unfolding decimal_parts_literal [OF di(1) f(1)] decimal_parts_literal [OF di(2) g(1)]
      lex_fractions [OF f(2) g(2) f(1) g(1) f(3) g(3), symmetric]
    using i j di by (intro lex_digits) simp_all
  moreover have "(?a = ?b) = (digits_val i = digits_val j)"
  proof
    assume "?a = ?b"
    then have "digits_val ?a = digits_val ?b" by simp
    then show "digits_val i = digits_val j" by simp
  next
    assume "digits_val i = digits_val j"
    then have "i = j" using canonical_nat_unique [OF i(1) j(1)] by simp
    then show "?a = ?b" by simp
  qed
  ultimately show ?thesis using rat by simp
qed

text \<open>A price in canonical form.\<close>

definition canonical :: "string \<Rightarrow> bool" where
  "canonical c = (ParsePrice c = Inr c)"

lemma ParsePrice_form:
  assumes "ParsePrice v = Inr c"
  obtains i f where "canonical_nat i" "length i \<le> 18" "all_digits f" "length f \<le> 12" "no_trailing0 f"
    "c = dec_literal i f" "rat_SetString c = Some (dec_rat i f)"
proof -
  obtain sg i f where "sg \<in> sign_strings" "sg \<noteq> [] \<longrightarrow> False" and i: "canonical_nat i" "all_digits f"
    "length i \<le> 18" "length f \<le> 12" and c: "c = parsed_form sg i f"
    using assms unfolding ParsePrice_def by (rule parseBounded_elim)
  then have c: "c = dec_literal i (trim_right0 f)" by (simp add: parsed_form_def Let_def)
  moreover have "rat_SetString c = Some (dec_rat i (trim_right0 f))"
    using i unfolding c by (intro rat_SetString_literal(1)) (simp_all add: canonical_nat_def)
  ultimately show ?thesis
    using i trim_right0_last [of f] length_trim_right0 [of f] by (intro that [of i "trim_right0 f"]) auto
qed

lemma canonical_price_ok:
  assumes "\<not> isl (ParsePrice v)"
  shows "canonical (canonical_price v)" and "amt (canonical_price v) = amt v" and "ParsePrice v = Inr (canonical_price v)"
proof -
  obtain c where c: "ParsePrice v = Inr c" using assms by (cases "ParsePrice v") auto
  then have "canonical_price v = c" by (simp add: canonical_price_def)
  moreover have "ParsePrice c = Inr c" using c parseBounded_value(6) unfolding ParsePrice_def by blast
  moreover have "amt c = amt v" using ParsePrice_value(1) [OF c] by simp
  ultimately show "canonical (canonical_price v)" "amt (canonical_price v) = amt v" "ParsePrice v = Inr (canonical_price v)"
    using c by (simp_all add: canonical_def)
qed

lemma canonical_fixed [simp]: "canonical c \<Longrightarrow> canonical_price c = c" "canonical c \<Longrightarrow> \<not> isl (ParsePrice c)"
  by (simp_all add: canonical_def canonical_price_def)

lemma canonical_unique: "canonical c \<Longrightarrow> canonical d \<Longrightarrow> amt c = amt d \<Longrightarrow> c = d"
  unfolding canonical_def ParsePrice_def using parseBounded_inj by blast

lemma canonical_zero [simp]: "canonical ''0''" "amt ''0'' = 0"
  unfolding canonical_def by code_simp+

lemma price_nonneg: "\<not> isl (ParsePrice v) \<Longrightarrow> 0 \<le> amt v"
  using ParsePrice_value(4) by (cases "ParsePrice v") auto

lemma maxDecimal_max:
  assumes "\<not> isl (ParsePrice l)" and "\<not> isl (ParsePrice r)"
  shows "canonical (maxDecimal l r)" and "amt (maxDecimal l r) = max (amt l) (amt r)"
proof -
  note l = canonical_price_ok [OF assms(1)] and r = canonical_price_ok [OF assms(2)]
  obtain i f where i: "canonical_nat i" "length i \<le> 18" "all_digits f" "length f \<le> 12" "no_trailing0 f"
    and cl: "canonical_price l = dec_literal i f" "amt (canonical_price l) = dec_rat i f"
    using ParsePrice_form [OF l(3)] by (metis option.sel)
  obtain j g where j: "canonical_nat j" "length j \<le> 18" "all_digits g" "length g \<le> 12" "no_trailing0 g"
    and cr: "canonical_price r = dec_literal j g" "amt (canonical_price r) = dec_rat j g"
    using ParsePrice_form [OF r(3)] by (metis option.sel)
  have less: "(decimal_parts (canonical_price l) < decimal_parts (canonical_price r)) = (amt l < amt r)"
    using decimal_parts_less [OF i(1,2) j(1,2) i(3-5) j(3-5)]
    unfolding cl(1) [symmetric] cr(1) [symmetric] cl(2) [symmetric] cr(2) [symmetric] l(2) r(2) .
  show "canonical (maxDecimal l r)" using l r by (simp add: maxDecimal_def Let_def)
  show "amt (maxDecimal l r) = max (amt l) (amt r)"
    using l(2) r(2) less by (simp add: maxDecimal_def Let_def max_def)
qed

section \<open>Maxima over published prices\<close>

text \<open>Every use of \<open>maxDecimal\<close> in \<open>componentMaximum\<close> is this fold, for the field read by \<open>g\<close>.\<close>

definition fold_max :: "('a \<Rightarrow> string option) \<Rightarrow> 'a list \<Rightarrow> string" where
  "fold_max g xs = foldl (\<lambda>m v. max_opt m (g v)) ''0'' xs"

definition field_values :: "('a \<Rightarrow> string option) \<Rightarrow> 'a set \<Rightarrow> rat set" where
  "field_values g A = {amt w | v w. v \<in> A \<and> g v = Some w}"

lemma field_values_insert:
  "field_values g (insert v A) = (case g v of None \<Rightarrow> field_values g A | Some w \<Rightarrow> insert (amt w) (field_values g A))"
  by (auto simp: field_values_def split: option.splits)

lemma finite_field_values: "finite A \<Longrightarrow> finite (field_values g A)"
proof (induction A rule: finite_induct)
  case (insert x F)
  then show ?case by (simp add: field_values_insert split: option.splits)
qed (simp add: field_values_def)

lemma fold_max_from:
  assumes "canonical m" and "\<forall>v \<in> set xs. \<forall>w. g v = Some w \<longrightarrow> \<not> isl (ParsePrice w)"
  shows "canonical (foldl (\<lambda>m v. max_opt m (g v)) m xs) \<and>
    amt (foldl (\<lambda>m v. max_opt m (g v)) m xs) = Max (insert (amt m) (field_values g (set xs)))"
  using assms
proof (induction xs arbitrary: m)
  case Nil
  then show ?case by (simp add: field_values_def)
next
  case (Cons x xs)
  show ?case
  proof (cases "g x")
    case None
    then show ?thesis using Cons by (simp add: max_opt_def field_values_insert)
  next
    case (Some w)
    then have w: "\<not> isl (ParsePrice w)" using Cons.prems by simp
    note m = maxDecimal_max [OF canonical_fixed(2) [OF Cons.prems(1)] w]
    have "canonical (foldl (\<lambda>m v. max_opt m (g v)) (maxDecimal m w) xs) \<and>
      amt (foldl (\<lambda>m v. max_opt m (g v)) (maxDecimal m w) xs) = Max (insert (amt (maxDecimal m w)) (field_values g (set xs)))"
      using Cons.IH [OF m(1)] Cons.prems by simp
    moreover have "Max (insert (max a b) S) = Max (insert a (insert b S))" if "finite S" for a b :: rat and S
      using that by (cases "S = {}") (auto simp: max.assoc)
    ultimately show ?thesis
      using finite_field_values [of "set xs" g] by (simp add: Some max_opt_def m(2) field_values_insert)
  qed
qed

lemma fold_max_spec:
  assumes "\<forall>v \<in> set xs. \<forall>w. g v = Some w \<longrightarrow> \<not> isl (ParsePrice w)"
  shows "canonical (fold_max g xs)" and "amt (fold_max g xs) = Max (insert 0 (field_values g (set xs)))"
    and "v \<in> set xs \<Longrightarrow> g v = Some w \<Longrightarrow> amt w \<le> amt (fold_max g xs)"
proof -
  show c: "canonical (fold_max g xs)" and a: "amt (fold_max g xs) = Max (insert 0 (field_values g (set xs)))"
    using fold_max_from [OF canonical_zero(1) assms] by (simp_all add: fold_max_def)
  show "amt w \<le> amt (fold_max g xs)" if "v \<in> set xs" "g v = Some w"
    unfolding a using that finite_field_values [of "set xs" g]
    by (intro Max_ge) (auto simp: field_values_def)
qed

lemma fold_max_set_cong:
  assumes "\<forall>v \<in> set xs. \<forall>w. g v = Some w \<longrightarrow> \<not> isl (ParsePrice w)" and "set ys = set xs"
  shows "fold_max g ys = fold_max g xs"
  using assms fold_max_spec(1,2) [of xs g] fold_max_spec(1,2) [of ys g] by (intro canonical_unique) simp_all

lemma componentMaximum_fold:
  "componentMaximum xs mode =
     (if xs = [] then None
      else Some \<lparr> tp_Input = fold_max (\<lambda>v. Some (tp_Input v)) xs,
                  tp_CachedInput = fold_max (\<lambda>v. Some (tp_CachedInput v)) xs,
                  tp_CacheWrite = (if mode = CacheWriteSeparate then Some (fold_max tp_CacheWrite xs) else None),
                  tp_CacheWrite5m = (if mode = CacheWriteSeparateByTTL then Some (fold_max tp_CacheWrite5m xs) else None),
                  tp_CacheWrite1h = (if mode = CacheWriteSeparateByTTL then Some (fold_max tp_CacheWrite1h xs) else None),
                  tp_Output = fold_max (\<lambda>v. Some (tp_Output v)) xs \<rparr>)"
  by (simp add: componentMaximum_def fold_max_def max_opt_def Let_def)

section \<open>What validation guarantees\<close>

lemma check_prices_None: "check_prices model vs = None \<longleftrightarrow> (\<forall>v \<in> set vs. \<not> isl (ParsePrice v))"
  by (induction vs) (auto split: sum.splits)

definition token_pricing_ok :: "string \<Rightarrow> TokenPricing \<Rightarrow> bool" where
  "token_pricing_ok mode p =
     ((\<forall>v \<in> {tp_Input p, tp_CachedInput p, tp_Output p}. \<not> isl (ParsePrice v))
      \<and> (\<forall>v. tp_CacheWrite p = Some v \<longrightarrow> \<not> isl (ParsePrice v))
      \<and> (\<forall>v. tp_CacheWrite5m p = Some v \<longrightarrow> \<not> isl (ParsePrice v))
      \<and> (\<forall>v. tp_CacheWrite1h p = Some v \<longrightarrow> \<not> isl (ParsePrice v))
      \<and> (tp_CacheWrite p \<noteq> None \<longleftrightarrow> mode = CacheWriteSeparate)
      \<and> (tp_CacheWrite5m p \<noteq> None \<longleftrightarrow> mode = CacheWriteSeparateByTTL)
      \<and> (tp_CacheWrite1h p \<noteq> None \<longleftrightarrow> mode = CacheWriteSeparateByTTL))"

lemma validateTokenPricing_None: "validateTokenPricing model mode p = None \<longleftrightarrow> token_pricing_ok mode p"
  unfolding validateTokenPricing_def token_pricing_ok_def
  by (cases "tp_CacheWrite p"; cases "tp_CacheWrite5m p"; cases "tp_CacheWrite1h p")
    (auto simp: check_prices_None simp del: check_prices.simps)

definition tiers_ok :: "string \<Rightarrow> (string \<times> ServiceTierPricing) list \<Rightarrow> bool" where
  "tiers_ok mode tiers =
     (\<forall>(tier, c) \<in> set tiers. tier \<in> {PricingTierStandard, PricingTierFlex, PricingTierFast}
        \<and> (Short c \<noteq> None \<or> Long c \<noteq> None)
        \<and> (\<forall>p. Short c = Some p \<or> Long c = Some p \<longrightarrow> token_pricing_ok mode p))"


lemma validate_tiers_None: "validate_tiers model mode tiers = None \<longleftrightarrow> tiers_ok mode tiers"
proof (induction tiers rule: validate_tiers.induct)
  case (2 model mode tier contexts rest)
  have c: "validate_context model mode x = None \<longleftrightarrow> (\<forall>p. x = Some p \<longrightarrow> token_pricing_ok mode p)" for x
    by (cases x) (simp_all add: validate_context_def validateTokenPricing_None)
  have split: "tiers_ok mode ((tier, contexts) # rest) \<longleftrightarrow>
      tier \<in> {PricingTierStandard, PricingTierFlex, PricingTierFast} \<and> (Short contexts \<noteq> None \<or> Long contexts \<noteq> None)
      \<and> validate_context model mode (Short contexts) = None \<and> validate_context model mode (Long contexts) = None
      \<and> tiers_ok mode rest"
    unfolding c by (auto simp: tiers_ok_def)
  show ?case
    unfolding split using 2 by (auto split: option.splits)
qed (simp add: tiers_ok_def)

definition rule_ok :: "ModelPricing \<Rightarrow> bool" where
  "rule_ok r = (mp_Input r = [] \<and> mp_CachedInput r = [] \<and> mp_Output r = []
     \<and> CacheWriteMode r \<in> {CacheWriteSeparate, CacheWriteSeparateByTTL, CacheWriteIncludedInInput}
     \<and> 0 < LongContextThresholdTokens r \<and> LongContextThresholdTokens r \<le> MaxInputTokens r
     \<and> ServiceTiers r \<noteq> [] \<and> tiers_ok (CacheWriteMode r) (ServiceTiers r))"

lemma validateV2ModelPricing_None: "validateV2ModelPricing model r = None \<longleftrightarrow> rule_ok r"
  by (auto simp: validateV2ModelPricing_def rule_ok_def validate_tiers_None)

lemma published_ok:
  assumes "rule_ok r"
  shows "published r \<noteq> []" and "p \<in> set (published r) \<Longrightarrow> token_pricing_ok (CacheWriteMode r) p"
    and "set (published_for_context r cls) \<subseteq> set (published r)"
proof -
  obtain t c rest where tc: "ServiceTiers r = (t, c) # rest" using assms
    by (cases "ServiceTiers r") (auto simp: rule_ok_def)
  then have "Short c \<noteq> None \<or> Long c \<noteq> None" using assms by (auto simp: rule_ok_def tiers_ok_def)
  then show "published r \<noteq> []" by (auto simp: published_def tc opt_list_def split: option.splits)
  show "token_pricing_ok (CacheWriteMode r) p" if "p \<in> set (published r)"
    using that assms by (fastforce simp: published_def rule_ok_def tiers_ok_def opt_list_def split: option.splits)
  show "set (published_for_context r cls) \<subseteq> set (published r)"
    by (auto simp: published_def published_for_context_def contextPrice_def split: if_splits)
qed

lemma direct_price_published:
  assumes "map_of (ServiceTiers r) tier = Some c" and "contextPrice c cls = Some p"
  shows "p \<in> set (published_for_context r cls)"
  using map_of_SomeD [OF assms(1)] assms(2) by (force simp: published_for_context_def opt_list_def)

section \<open>The selected price\<close>

definition price_le :: "TokenPricing \<Rightarrow> TokenPricing \<Rightarrow> bool" where
  "price_le p q =
     (amt (tp_Input p) \<le> amt (tp_Input q) \<and> amt (tp_CachedInput p) \<le> amt (tp_CachedInput q)
      \<and> amt (tp_Output p) \<le> amt (tp_Output q)
      \<and> (\<forall>v w. tp_CacheWrite p = Some v \<longrightarrow> tp_CacheWrite q = Some w \<longrightarrow> amt v \<le> amt w)
      \<and> (\<forall>v w. tp_CacheWrite5m p = Some v \<longrightarrow> tp_CacheWrite5m q = Some w \<longrightarrow> amt v \<le> amt w)
      \<and> (\<forall>v w. tp_CacheWrite1h p = Some v \<longrightarrow> tp_CacheWrite1h q = Some w \<longrightarrow> amt v \<le> amt w))"

lemma token_pricing_fields:
  assumes "\<forall>p \<in> set xs. token_pricing_ok mode p"
  shows "\<forall>v \<in> set xs. \<forall>w. Some (tp_Input v) = Some w \<longrightarrow> \<not> isl (ParsePrice w)"
    "\<forall>v \<in> set xs. \<forall>w. Some (tp_CachedInput v) = Some w \<longrightarrow> \<not> isl (ParsePrice w)"
    "\<forall>v \<in> set xs. \<forall>w. Some (tp_Output v) = Some w \<longrightarrow> \<not> isl (ParsePrice w)"
    "\<forall>v \<in> set xs. \<forall>w. tp_CacheWrite v = Some w \<longrightarrow> \<not> isl (ParsePrice w)"
    "\<forall>v \<in> set xs. \<forall>w. tp_CacheWrite5m v = Some w \<longrightarrow> \<not> isl (ParsePrice w)"
    "\<forall>v \<in> set xs. \<forall>w. tp_CacheWrite1h v = Some w \<longrightarrow> \<not> isl (ParsePrice w)"
  using assms unfolding token_pricing_ok_def by blast+

lemma componentMaximum_bound:
  assumes ok: "\<forall>p \<in> set xs. token_pricing_ok mode p" and ne: "xs \<noteq> []"
  obtains q where "componentMaximum xs mode = Some q" "token_pricing_ok mode q" "\<forall>p \<in> set xs. price_le p q"
proof -
  note f = token_pricing_fields [OF ok]
  note c = fold_max_spec(1) [OF f(1)] fold_max_spec(1) [OF f(2)] fold_max_spec(1) [OF f(3)]
    fold_max_spec(1) [OF f(4)] fold_max_spec(1) [OF f(5)] fold_max_spec(1) [OF f(6)]
  note le = fold_max_spec(3) [OF f(1)] fold_max_spec(3) [OF f(2)] fold_max_spec(3) [OF f(3)]
    fold_max_spec(3) [OF f(4)] fold_max_spec(3) [OF f(5)] fold_max_spec(3) [OF f(6)]
  obtain q where q: "componentMaximum xs mode = Some q" using ne by (simp add: componentMaximum_fold)
  have qe: "q = \<lparr> tp_Input = fold_max (\<lambda>v. Some (tp_Input v)) xs,
                  tp_CachedInput = fold_max (\<lambda>v. Some (tp_CachedInput v)) xs,
                  tp_CacheWrite = (if mode = CacheWriteSeparate then Some (fold_max tp_CacheWrite xs) else None),
                  tp_CacheWrite5m = (if mode = CacheWriteSeparateByTTL then Some (fold_max tp_CacheWrite5m xs) else None),
                  tp_CacheWrite1h = (if mode = CacheWriteSeparateByTTL then Some (fold_max tp_CacheWrite1h xs) else None),
                  tp_Output = fold_max (\<lambda>v. Some (tp_Output v)) xs \<rparr>"
    using q ne by (simp add: componentMaximum_fold)
  have "token_pricing_ok mode q" using c by (simp add: qe token_pricing_ok_def)
  moreover have "price_le p q" if "p \<in> set xs" for p
    using le [OF that] by (simp add: qe price_le_def)
  ultimately show ?thesis using that q by blast
qed

lemma applied_prices_ok:
  assumes "token_pricing_ok mode p"
  obtains d where "applied_prices mode tier cls reason p = Inr d"
    "PricingServiceTier d = tier" "ContextClass d = cls" "FallbackReason d = reason"
    "pd_Input d = tp_Input p" "pd_CachedInput d = tp_CachedInput p" "pd_Output d = tp_Output p"
    "tp_CacheWrite p = Some w \<Longrightarrow> pd_CacheWrite d = w"
    "\<not> isl (ParsePrice (pd_CacheWrite d))"
proof (cases "mode = CacheWriteSeparateByTTL")
  case True
  then obtain v w where vw: "tp_CacheWrite5m p = Some v" "tp_CacheWrite1h p = Some w" "tp_CacheWrite p = None"
    "\<not> isl (ParsePrice v)" "\<not> isl (ParsePrice w)"
    using assms by (auto simp: token_pricing_ok_def)
  then show ?thesis
    using that maxDecimal_max(1) [of v w] True by (simp add: applied_prices_def Let_def)
next
  case False
  have "\<not> isl (ParsePrice (case tp_CacheWrite p of None \<Rightarrow> ''0'' | Some v \<Rightarrow> v))"
    using assms by (cases "tp_CacheWrite p") (auto simp: token_pricing_ok_def)
  then show ?thesis using that False by (simp add: applied_prices_def Let_def)
qed

lemma AppendFallbackReason_nonempty: "r \<noteq> [] \<Longrightarrow> AppendFallbackReason e r \<noteq> []"
proof -
  assume r: "r \<noteq> []"
  let ?l = "sort (remdups (filter (\<lambda>v. v \<noteq> []) (split_on CHR '','' e) @ [r]))"
  have "join_with x ps \<noteq> []" if "ps \<noteq> []" "\<forall>p \<in> set ps. p \<noteq> []" for x ps
    using that by (cases ps rule: induct_list012 [THEN list.exhaust]) (auto elim: join_with.elims)
  moreover have "r \<in> set ?l" "\<forall>p \<in> set ?l. p \<noteq> []" using r by auto
  moreover have "?l \<noteq> []" using \<open>r \<in> set ?l\<close> by (metis empty_iff empty_set)
  ultimately show ?thesis using r unfolding AppendFallbackReason_def by presburger
qed

text \<open>The two ways \<open>Select\<close> arrives at a price.\<close>

definition long_or_short :: "ModelPricing \<Rightarrow> go_int64 \<Rightarrow> string" where
  "long_or_short r n = (if n > LongContextThresholdTokens r then ContextClassLong else ContextClassShort)"

lemma Select_cases:
  assumes ok: "rule_ok (ps_Rule s)" and n: "0 \<le> n"
  obtains (Direct) tier c p where "NormalizeServiceTier t = Some tier" "n \<le> MaxInputTokens (ps_Rule s)"
      "map_of (ServiceTiers (ps_Rule s)) tier = Some c" "contextPrice c (long_or_short (ps_Rule s) n) = Some p"
      "token_pricing_ok (CacheWriteMode (ps_Rule s)) p"
      "Select s t n = applied_prices (CacheWriteMode (ps_Rule s)) tier (long_or_short (ps_Rule s) n) [] p"
  | (Fallback) reason p where "reason \<noteq> []" "token_pricing_ok (CacheWriteMode (ps_Rule s)) p"
      "\<forall>q \<in> set (published_for_context (ps_Rule s) (long_or_short (ps_Rule s) n)). price_le q p"
      "Select s t n = applied_prices (CacheWriteMode (ps_Rule s)) PricingTierMaxPublished
         (long_or_short (ps_Rule s) n) reason p"
proof -
  let ?r = "ps_Rule s" and ?m = "CacheWriteMode (ps_Rule s)"
  let ?c = "long_or_short (ps_Rule s) n"
  note pub = published_ok [OF ok]
  obtain mx where mx: "maxPublished ?r = Some mx" "token_pricing_ok ?m mx" "\<forall>p \<in> set (published ?r). price_le p mx"
    unfolding maxPublished_def using componentMaximum_bound [OF _ pub(1), of ?m] pub(2) by blast
  have full: "\<forall>q \<in> set (published_for_context ?r ?c). price_le q mx" using mx(3) pub(3) by blast
  define over where "over = (n > MaxInputTokens ?r)"
  define missing where "missing = (trim_space t = [])"
  define norm where "norm = (if missing then None else NormalizeServiceTier t)"
  define r1 where "r1 = (let r0 = (if over then AppendFallbackReason [] FallbackMissingPriceCombination else []) in
    if missing then AppendFallbackReason r0 FallbackMissingServiceTier
    else if norm = None then AppendFallbackReason r0 FallbackUnknownServiceTier else r0)"
  define sel where "sel = (if \<not> over \<and> norm \<noteq> None then
     (case map_of (ServiceTiers ?r) (the norm) of None \<Rightarrow> None | Some c \<Rightarrow> contextPrice c ?c) else None)"
  define r2 where "r2 = (if \<not> over \<and> norm \<noteq> None \<and> sel = None
     then AppendFallbackReason r1 FallbackMissingPriceCombination else r1)"
  have eq: "Select s t n =
    (case sel of
       Some p \<Rightarrow> applied_prices ?m (the norm) ?c r2 p
     | None \<Rightarrow>
         (case (if \<not> over \<and> norm = None then maxPublishedForContext ?r ?c else None) of
            Some p \<Rightarrow> applied_prices ?m PricingTierMaxPublished ?c r2 p
          | None \<Rightarrow> applied_prices ?m PricingTierMaxPublished ?c (AppendFallbackReason r2 FallbackMissingPriceCombination) mx))"
    using n mx(1)
    by (cases "NormalizeServiceTier t"; cases over; cases missing)
      (auto simp: Select_def Let_def long_or_short_def over_def missing_def norm_def sel_def r1_def r2_def
        split: option.splits)
  show ?thesis
  proof (cases sel)
    case (Some p)
    then have nn: "norm \<noteq> None" "\<not> over" by (auto simp: sel_def split: if_splits)
    then obtain tier where tier: "norm = Some tier" by blast
    then obtain c where c: "map_of (ServiceTiers ?r) tier = Some c" "contextPrice c ?c = Some p"
      using Some nn by (auto simp: sel_def split: option.splits)
    have "token_pricing_ok ?m p" using direct_price_published [OF c] pub(2,3) by blast
    moreover have "NormalizeServiceTier t = Some tier" "\<not> missing"
      using tier by (auto simp: norm_def split: if_splits)
    moreover have "r2 = []" using nn tier \<open>\<not> missing\<close> Some by (simp add: r2_def r1_def Let_def)
    ultimately show ?thesis using Direct [of tier c p] c nn(2) eq Some tier by (simp add: over_def)
  next
    case None
    then have r1: "r1 \<noteq> [] \<or> (\<not> over \<and> norm \<noteq> None)"
      using AppendFallbackReason_nonempty by (auto simp: r1_def Let_def)
    show ?thesis
    proof (cases "\<not> over \<and> norm = None")
      case True
      have r2: "r2 \<noteq> []" using True r1 None by (auto simp: r2_def)
      show ?thesis
      proof (cases "published_for_context ?r ?c = []")
        case False
        have "\<forall>p \<in> set (published_for_context ?r ?c). token_pricing_ok ?m p" using pub(2,3) by blast
        from componentMaximum_bound [OF this False] obtain q where
          q: "maxPublishedForContext ?r ?c = Some q" "token_pricing_ok ?m q"
             "\<forall>p \<in> set (published_for_context ?r ?c). price_le p q"
          unfolding maxPublishedForContext_def by blast
        then show ?thesis using Fallback [OF r2 q(2,3)] eq None True by simp
      next
        case nopub: True
        then have "maxPublishedForContext ?r ?c = None" by (simp add: maxPublishedForContext_def componentMaximum_def)
        then show ?thesis
          using Fallback [OF AppendFallbackReason_nonempty mx(2) full, of FallbackMissingPriceCombination r2] eq None True by simp
      qed
    next
      case False
      then show ?thesis
        using Fallback [OF AppendFallbackReason_nonempty mx(2) full, of FallbackMissingPriceCombination r2] eq None
        by (simp add: if_not_P)
    qed
  qed
qed

lemma ParsePricingSnapshot_ok:
  assumes "ParsePricingSnapshot s names = Inr s'"
  shows "s' = s" and "rule_ok (ps_Rule s)"
proof -
  have "validateV2ModelPricing (ps_Model s) (ps_Rule s) = None \<and> s' = s"
    using assms by (auto simp: ParsePricingSnapshot_def split: if_splits option.splits)
  then show "s' = s" "rule_ok (ps_Rule s)" using validateV2ModelPricing_None by blast+
qed

section \<open>Properties\<close>

text \<open>
  C13: settlement can always price a request: on every snapshot that passed validation and every
  non-negative token count, whatever tier text the upstream reported, \<^verbatim>\<open>Select\<close> returns a decision (it
  neither errors nor dereferences a missing price) and all four prices in it are valid decimals.
\<close>

theorem Select_total:
  assumes "ParsePricingSnapshot s names = Inr s'" and "0 \<le> n"
  shows "\<exists>d. Select s' t n = Inr d \<and>
    (\<forall>v \<in> {pd_Input d, pd_CachedInput d, pd_CacheWrite d, pd_Output d}. \<not> isl (ParsePrice v))"
proof -
  note ok = ParsePricingSnapshot_ok [OF assms(1)]
  show ?thesis
  proof (cases rule: Select_cases [OF ok(2) assms(2), of t, case_names Direct Fallback])
    case (Direct tier c p)
    then obtain d where "Select s t n = Inr d" "pd_Input d = tp_Input p" "pd_CachedInput d = tp_CachedInput p"
      "pd_Output d = tp_Output p" "\<not> isl (ParsePrice (pd_CacheWrite d))"
      using applied_prices_ok [OF Direct(5)] by metis
    then show ?thesis using Direct(5) ok(1) by (auto simp: token_pricing_ok_def)
  next
    case (Fallback reason p)
    then obtain d where "Select s t n = Inr d" "pd_Input d = tp_Input p" "pd_CachedInput d = tp_CachedInput p"
      "pd_Output d = tp_Output p" "\<not> isl (ParsePrice (pd_CacheWrite d))"
      using applied_prices_ok [OF Fallback(2)] by metis
    then show ?thesis using Fallback(2) ok(1) by (auto simp: token_pricing_ok_def)
  qed
qed

definition example_price :: "string \<Rightarrow> string \<Rightarrow> TokenPricing" where
  "example_price i w = \<lparr>tp_Input = i, tp_CachedInput = ''0.1'', tp_CacheWrite = Some w, tp_CacheWrite5m = None,
     tp_CacheWrite1h = None, tp_Output = ''10''\<rparr>"

definition example_rule :: ModelPricing where
  "example_rule = \<lparr> mp_Input = [], mp_CachedInput = [], mp_Output = [], CacheWriteMode = CacheWriteSeparate,
     MaxInputTokens = 1000, LongContextThresholdTokens = 500,
     ServiceTiers = [(PricingTierStandard, \<lparr>Short = Some (example_price ''1.5'' ''2''), Long = None\<rparr>),
                     (PricingTierFast, \<lparr>Short = Some (example_price ''3'' ''1.25''), Long = None\<rparr>)] \<rparr>"

definition example_policy :: PricingFallbackPolicy where
  "example_policy = \<lparr>UnknownServiceTier = FallbackMaxPublished, MissingPriceCombination = FallbackMaxPublished,
     MissingCacheWriteTokens = FallbackAllUncachedAsWrite\<rparr>"

definition example_snapshot :: PricingSnapshot where
  "example_snapshot = \<lparr>ps_SchemaVersion = 2, ps_FallbackPolicy = example_policy, ps_Model = ''m-1'', ps_Rule = example_rule\<rparr>"

lemma example_snapshot_ok: "ParsePricingSnapshot example_snapshot [] = Inr example_snapshot"
  by code_simp

theorem Select_total_witness:
  "\<exists>d. Select example_snapshot ''vip'' 10 = Inr d \<and> \<not> isl (ParsePrice (pd_Input d))"
  using Select_total [OF example_snapshot_ok, of 10 "''vip''"] by auto




lemma componentMaximum_set_cong:
  assumes "\<forall>p \<in> set xs. token_pricing_ok mode p" and "set ys = set xs"
  shows "componentMaximum ys mode = componentMaximum xs mode"
proof -
  have e: "(ys = []) = (xs = [])" using assms(2) by (metis set_empty)
  note f = token_pricing_fields [OF assms(1), THEN fold_max_set_cong, OF assms(2)]
  show ?thesis by (simp add: componentMaximum_fold e f)
qed

text \<open>
  C14: the decision does not depend on the order in which Go iterates over the map of service tiers:
  permuting the entries of a validated snapshot leaves \<^verbatim>\<open>Select\<close> unchanged for every tier and token count.
\<close>

theorem Select_order_independent:
  assumes "ParsePricingSnapshot s names = Inr s'" and "distinct (map fst (ServiceTiers (ps_Rule s')))"
    and "mset tiers = mset (ServiceTiers (ps_Rule s'))"
  shows "Select (s'\<lparr>ps_Rule := (ps_Rule s')\<lparr>ServiceTiers := tiers\<rparr>\<rparr>) t n = Select s' t n"
proof -
  note ok = ParsePricingSnapshot_ok [OF assms(1)]
  let ?r = "ps_Rule s'" and ?q = "(ps_Rule s')\<lparr>ServiceTiers := tiers\<rparr>"
  have set: "set tiers = set (ServiceTiers ?r)" using assms(3) by (metis set_mset_mset)
  have "distinct (map fst tiers)" using assms(2,3) by (metis mset_eq_imp_distinct_iff mset_map)
  then have m: "map_of tiers = map_of (ServiceTiers ?r)"
    using assms(2) set map_of_inject_set by blast
  note pub = published_ok [of ?r]
  have "\<forall>p \<in> set (published ?r). token_pricing_ok (CacheWriteMode ?r) p" using pub(2) ok by simp
  then have a: "maxPublished ?q = maxPublished ?r"
    unfolding maxPublished_def by (subst componentMaximum_set_cong [of "published ?r"])
      (simp_all add: published_def set)
  have "\<forall>p \<in> set (published_for_context ?r c). token_pricing_ok (CacheWriteMode ?r) p" for c
    using pub(2,3) ok by blast
  then have b: "maxPublishedForContext ?q c = maxPublishedForContext ?r c" for c
    unfolding maxPublishedForContext_def
    by (subst componentMaximum_set_cong [of "published_for_context ?r c"])
      (simp_all add: published_for_context_def set)
  have rec: "ps_Rule (s'\<lparr>ps_Rule := ?q\<rparr>) = ?q" "CacheWriteMode ?q = CacheWriteMode ?r"
    "MaxInputTokens ?q = MaxInputTokens ?r" "LongContextThresholdTokens ?q = LongContextThresholdTokens ?r"
    "ServiceTiers ?q = tiers" by simp_all
  show ?thesis unfolding Select_def Let_def rec a b m ..
qed

theorem Select_order_independent_witness:
  "Select (example_snapshot\<lparr>ps_Rule := example_rule\<lparr>ServiceTiers := rev (ServiceTiers example_rule)\<rparr>\<rparr>) ''vip'' 10
    = Select example_snapshot ''vip'' 10"
proof -
  have "distinct (map fst (ServiceTiers (ps_Rule example_snapshot)))"
    by (simp add: example_snapshot_def example_rule_def)
  then show ?thesis
    using Select_order_independent [OF example_snapshot_ok, of "rev (ServiceTiers example_rule)" "''vip''" 10]
    by (simp add: example_snapshot_def)
qed

text \<open>
  \<^verbatim>\<open>AppendFallbackReason\<close> keeps a comma-separated set: the parts of the result are the sorted list of
  the previous non-empty parts together with the new reason, each once.
\<close>

lemma AppendFallbackReason_set:
  assumes "r \<noteq> []" and "CHR '','' \<notin> set r"
  shows "split_on CHR '','' (AppendFallbackReason e r) =
    sorted_list_of_set (insert r (set (split_on CHR '','' e) - {[]}))"
proof -
  let ?xs = "filter (\<lambda>v. v \<noteq> []) (split_on CHR '','' e) @ [r]"
  have "split_on CHR '','' (AppendFallbackReason e r) = sort (remdups ?xs)"
  proof -
    have "r \<in> set (sort (remdups ?xs))" by simp
    then have "sort (remdups ?xs) \<noteq> []" by (metis empty_iff empty_set)
    then have "split_on CHR '','' (join_with '','' (sort (remdups ?xs))) = sort (remdups ?xs)"
      using assms split_on_free [of _ "CHR '',''" e] by (intro split_join) auto
    then show ?thesis using assms(1) by (simp only: AppendFallbackReason_def if_False)
  qed
  also have "\<dots> = sorted_list_of_set (set ?xs)" by (rule sorted_list_of_set_sort_remdups [symmetric])
  also have "set ?xs = insert r (set (split_on CHR '','' e) - {[]})" by auto
  finally show ?thesis .
qed

lemma AppendFallbackReason_set_witness:
  "split_on CHR '','' (AppendFallbackReason ''b,a,b'' ''a'') = [''a'', ''b'']"
proof -
  have "set (split_on CHR '','' ''b,a,b'') = {''a'', ''b''}" by auto
  then show ?thesis
    using AppendFallbackReason_set [of "''a''" "''b,a,b''"] by (simp add: insert_Diff_if)
qed

section \<open>Overrides\<close>



lemma blank_canonical [simp]: "blank_context \<circ> canonical_context = blank_context"
  by (rule ext) (simp add: blank_context_def canonical_context_def option.map_comp comp_def)










end
