(* ===== verification/Table.thy ===== *)
theory Table
  imports Prelude "HOL-Library.Multiset"
begin

text \<open>
  The database as the store package uses it: tables are lists of rows, statements are functions on them,
  and a transaction is a function that either fails, leaving the database as it was, or returns a value and
  the new database. Row locks serialise the transactions that touch the same rows, so each is one step.
  The error classes are those of \<^verbatim>\<open>internal/store/store.go\<close>; \<^verbatim>\<open>mapDBError\<close> turns a unique violation into
  \<open>ErrConflict\<close>, a violated check, foreign key or numeric range into \<open>ErrInvalid\<close> and a missing row into
  \<open>ErrNotFound\<close>. \<open>ErrAmount\<close> stands for the errors of decimal arithmetic, which carry no class. Failures of the
  connection are not modelled.
\<close>

section \<open>Errors and transactions\<close>

record QuotaExceededError =
  qe_Scope :: string
  qe_Dimension :: string
  qe_Limit :: go_int64
  qe_Current :: go_int64
  qe_Requested :: go_int64
  qe_RetryAfter :: duration

datatype store_error =
    ErrNotFound | ErrConflict | ErrInvalid | ErrQuotaExceeded QuotaExceededError
  | ErrUnexpectedRows | ErrModelNotAllowed | ErrInsufficientFunds | ErrBillingOperationCleaned | ErrAmount

definition andThen :: "store_error + 'a \<Rightarrow> ('a \<Rightarrow> store_error + 'b) \<Rightarrow> store_error + 'b" where
  "andThen m f = (case m of Inl e \<Rightarrow> Inl e | Inr x \<Rightarrow> f x)"

definition guard :: "bool \<Rightarrow> store_error \<Rightarrow> store_error + unit" where
  "guard ok e = (if ok then Inr () else Inl e)"

text \<open>\<^verbatim>\<open>Store.withTx\<close>: the changes of a body that fails are rolled back.\<close>

definition withTx :: "('s \<Rightarrow> store_error + ('a \<times> 's)) \<Rightarrow> 's \<Rightarrow> (store_error + 'a) \<times> 's" where
  "withTx body s = (case body s of Inl e \<Rightarrow> (Inl e, s) | Inr (x, s') \<Rightarrow> (Inr x, s'))"

lemma andThen_simps [simp]: "andThen (Inl e) f = Inl e" "andThen (Inr x) f = f x"
  by (simp_all add: andThen_def)

lemma andThen_Inr: "andThen m f = Inr y \<longleftrightarrow> (\<exists>x. m = Inr x \<and> f x = Inr y)"
  by (cases m) simp_all

lemma andThen_InrE:
  assumes "andThen m f = Inr y"
  obtains x where "m = Inr x" "f x = Inr y"
  using assms andThen_Inr by metis

lemma guard_Inr [simp]: "guard ok e = Inr u \<longleftrightarrow> ok"
  by (simp add: guard_def)

lemma guard_True [simp]: "guard True e = Inr ()"
  by (simp add: guard_def)

lemma andThen_guard: "andThen (guard ok e) f = (if ok then f () else Inl e)"
  by (simp add: guard_def)

lemma withTx_error: "withTx body s = (Inl e, s') \<Longrightarrow> s' = s"
  by (auto simp: withTx_def split: sum.splits)

lemma withTx_ok: "withTx body s = (Inr x, s') \<longleftrightarrow> body s = Inr (x, s')"
  by (auto simp: withTx_def split: sum.splits)

section \<open>Statements\<close>

text \<open>\<^verbatim>\<open>UPDATE ... SET f WHERE p\<close> with the check constraints \<open>c\<close>; the result has the number of rows affected.\<close>

definition sql_update :: "('r \<Rightarrow> bool) \<Rightarrow> ('r \<Rightarrow> bool) \<Rightarrow> ('r \<Rightarrow> 'r) \<Rightarrow> 'r list \<Rightarrow> store_error + ('r list \<times> nat)" where
  "sql_update c p f rows =
     (if \<exists>r \<in> set rows. p r \<and> \<not> c (f r) then Inl ErrInvalid
      else Inr (map (\<lambda>r. if p r then f r else r) rows, length (filter p rows)))"

definition sql_delete :: "('r \<Rightarrow> bool) \<Rightarrow> 'r list \<Rightarrow> 'r list" where
  "sql_delete p rows = filter (\<lambda>r. \<not> p r) rows"

definition sql_insert :: "('r \<Rightarrow> bool) \<Rightarrow> ('r \<Rightarrow> 'k) \<Rightarrow> 'r \<Rightarrow> 'r list \<Rightarrow> store_error + 'r list" where
  "sql_insert c key r rows =
     (if \<not> c r then Inl ErrInvalid
      else if key r \<in> key ` set rows then Inl ErrConflict else Inr (rows @ [r]))"

text \<open>\<^verbatim>\<open>INSERT ... ON CONFLICT DO NOTHING\<close> of one row.\<close>

definition sql_insert_ignore :: "('r \<Rightarrow> 'k) \<Rightarrow> 'r \<Rightarrow> 'r list \<Rightarrow> 'r list" where
  "sql_insert_ignore key r rows = (if key r \<in> key ` set rows then rows else rows @ [r])"

definition row_lookup :: "('r \<Rightarrow> 'k) \<Rightarrow> 'k \<Rightarrow> 'r list \<Rightarrow> 'r option" where
  "row_lookup key k rows = find (\<lambda>r. key r = k) rows"

definition requireExactlyAffected :: "nat \<Rightarrow> nat \<Rightarrow> store_error + unit" where
  "requireExactlyAffected n expected = (if n \<noteq> expected then Inl ErrConflict else Inr ())"

section \<open>Tables with a primary key\<close>

text \<open>
  The interface the components use: a lookup by primary key, an insertion that keeps existing rows and
  an update in place, with the invariant that keys are unique.
\<close>

locale keyed_table =
  fixes key :: "'r \<Rightarrow> 'k"
    and unique :: "'t \<Rightarrow> bool"
    and lookup :: "'k \<Rightarrow> 't \<Rightarrow> 'r option"
    and insert_ignore :: "'r \<Rightarrow> 't \<Rightarrow> 't"
    and update_row :: "'k \<Rightarrow> ('r \<Rightarrow> 'r) \<Rightarrow> 't \<Rightarrow> 't"
  assumes lookup_key: "lookup k t = Some r \<Longrightarrow> key r = k"
    and insert_unique: "unique t \<Longrightarrow> unique (insert_ignore r t)"
    and lookup_insert: "lookup k (insert_ignore r t) = (if k = key r \<and> lookup k t = None then Some r else lookup k t)"
    and update_unique: "unique t \<Longrightarrow> (\<And>r. key (f r) = key r) \<Longrightarrow> unique (update_row k f t)"
    and lookup_update: "(\<And>r. key (f r) = key r) \<Longrightarrow>
          lookup k' (update_row k f t) = (if k' = k then map_option f (lookup k t) else lookup k' t)"
begin

lemma insert_then_lookup: "\<exists>r'. lookup (key r) (insert_ignore r t) = Some r'"
  by (cases "lookup (key r) t") (simp_all add: lookup_insert)

lemma insert_keeps: "lookup k t = Some r' \<Longrightarrow> lookup k (insert_ignore r t) = Some r'"
  by (simp add: lookup_insert)

lemma update_other: "(\<And>r. key (f r) = key r) \<Longrightarrow> k' \<noteq> k \<Longrightarrow> lookup k' (update_row k f t) = lookup k' t"
  by (simp add: lookup_update)

end

definition keys_unique :: "('r \<Rightarrow> 'k) \<Rightarrow> 'r list \<Rightarrow> bool" where
  "keys_unique key rows = distinct (map key rows)"

definition row_update :: "('r \<Rightarrow> 'k) \<Rightarrow> 'k \<Rightarrow> ('r \<Rightarrow> 'r) \<Rightarrow> 'r list \<Rightarrow> 'r list" where
  "row_update key k f rows = map (\<lambda>r. if key r = k then f r else r) rows"

lemma row_lookup_Some: "row_lookup key k rows = Some r \<Longrightarrow> r \<in> set rows \<and> key r = k"
  by (auto simp: row_lookup_def find_Some_iff)

lemma row_lookup_None: "row_lookup key k rows = None \<longleftrightarrow> k \<notin> key ` set rows"
  by (auto simp: row_lookup_def find_None_iff)

lemma row_lookup_unique:
  "keys_unique key rows \<Longrightarrow> r \<in> set rows \<Longrightarrow> row_lookup key (key r) rows = Some r"
  unfolding keys_unique_def row_lookup_def by (induction rows) auto

lemma row_lookup_append: "row_lookup key k (xs @ ys) =
    (case row_lookup key k xs of Some r \<Rightarrow> Some r | None \<Rightarrow> row_lookup key k ys)"
  unfolding row_lookup_def by (induction xs) auto

lemma row_lookup_single [simp]: "row_lookup key k [r] = (if key r = k then Some r else None)"
  by (simp add: row_lookup_def)

lemma row_lookup_row_update:
  assumes "\<And>r. key (f r) = key r"
  shows "row_lookup key k' (row_update key k f rows) =
    (if k' = k then map_option f (row_lookup key k rows) else row_lookup key k' rows)"
  unfolding row_lookup_def row_update_def using assms by (induction rows) auto

lemma row_update_unique:
  assumes "\<And>r. key (f r) = key r"
  shows "map key (row_update key k f rows) = map key rows"
  unfolding row_update_def using assms by (induction rows) auto

text \<open>Row lists implement the interface for every key.\<close>

interpretation rows: keyed_table key "keys_unique key" "row_lookup key" "sql_insert_ignore key" "row_update key"
  for key :: "'r \<Rightarrow> 'k"
proof
  fix k k' :: 'k and t :: "'r list" and r :: 'r and f :: "'r \<Rightarrow> 'r"
  show "key r = k" if "row_lookup key k t = Some r" using row_lookup_Some [OF that] by simp
  show "keys_unique key (sql_insert_ignore key r t)" if "keys_unique key t"
    using that by (auto simp: keys_unique_def sql_insert_ignore_def)
  show "row_lookup key k (sql_insert_ignore key r t) =
      (if k = key r \<and> row_lookup key k t = None then Some r else row_lookup key k t)"
  proof (cases "row_lookup key (key r) t")
    case None
    have one: "row_lookup key k [r] = (if k = key r then Some r else None)" by (auto simp: row_lookup_def)
    have "key r \<notin> key ` set t" using None row_lookup_None [of key "key r" t] by simp
    then show ?thesis using None
      by (cases "row_lookup key k t") (auto simp: sql_insert_ignore_def row_lookup_append one)
  next
    case (Some x)
    then have "key r \<in> key ` set t" using row_lookup_None [of key "key r" t] by auto
    then show ?thesis using Some by (auto simp: sql_insert_ignore_def)
  qed
  show "keys_unique key (row_update key k f t)" if "keys_unique key t" "\<And>r. key (f r) = key r"
    using that row_update_unique [of key f k t] by (simp add: keys_unique_def)
  show "row_lookup key k' (row_update key k f t) =
      (if k' = k then map_option f (row_lookup key k t) else row_lookup key k' t)" if "\<And>r. key (f r) = key r"
    using row_lookup_row_update [of key f k' k t] that by blast
qed

section \<open>Statements over several rows\<close>

lemma keys_unique_map:
  assumes "\<And>r. key (f r) = key r"
  shows "keys_unique key (map (\<lambda>r. if p r then f r else r) rows) = keys_unique key rows"
proof -
  have "key \<circ> (\<lambda>r. if p r then f r else r) = key" by (rule ext) (simp add: assms)
  then show ?thesis by (simp add: keys_unique_def)
qed

lemma row_lookup_map:
  assumes "\<And>r. key (f r) = key r"
  shows "row_lookup key k (map (\<lambda>r. if p r then f r else r) rows) =
    map_option (\<lambda>r. if p r then f r else r) (row_lookup key k rows)"
  unfolding row_lookup_def using assms by (induction rows) auto

lemma keys_unique_filter: "keys_unique key rows \<Longrightarrow> keys_unique key (filter p rows)"
  unfolding keys_unique_def by (induction rows) auto

lemma row_lookup_filter:
  assumes "keys_unique key rows"
  shows "row_lookup key k (filter p rows) =
    (case row_lookup key k rows of None \<Rightarrow> None | Some r \<Rightarrow> if p r then Some r else None)"
  using assms
proof (induction rows)
  case (Cons r rows)
  have "keys_unique key rows" and new: "key r \<notin> key ` set rows"
    using Cons.prems by (simp_all add: keys_unique_def)
  then have IH: "row_lookup key k (filter p rows) =
      (case row_lookup key k rows of None \<Rightarrow> None | Some r \<Rightarrow> if p r then Some r else None)" using Cons.IH by simp
  show ?case
  proof (cases "key r = k")
    case True
    then have "row_lookup key k rows = None" using new by (simp add: row_lookup_None)
    then show ?thesis using True IH by (simp add: row_lookup_def)
  next
    case False
    then show ?thesis using IH by (simp add: row_lookup_def)
  qed
qed (simp add: row_lookup_def)

lemma filter_two_rows:
  assumes uniq: "keys_unique key rows" and ne: "k1 \<noteq> k2"
    and a: "row_lookup key k1 rows = Some a" and b: "row_lookup key k2 rows = Some b" and ok: "p a" "p b"
  shows "length (filter (\<lambda>r. (key r = k1 \<or> key r = k2) \<and> p r) rows) = 2"
proof -
  let ?P = "\<lambda>r. (key r = k1 \<or> key r = k2) \<and> p r"
  have "set (filter ?P rows) = {a, b}"
  proof
    show "set (filter ?P rows) \<subseteq> {a, b}"
    proof
      fix r assume r: "r \<in> set (filter ?P rows)"
      then have "row_lookup key (key r) rows = Some r" using row_lookup_unique [OF uniq] by simp
      then show "r \<in> {a, b}" using r a b by auto
    qed
    show "{a, b} \<subseteq> set (filter ?P rows)" using row_lookup_Some [OF a] row_lookup_Some [OF b] ok by auto
  qed
  moreover have "distinct rows" using uniq by (simp add: keys_unique_def distinct_map)
  then have "length (filter ?P rows) = card (set (filter ?P rows))"
    using distinct_card [OF distinct_filter, of rows ?P] by simp
  moreover have "a \<noteq> b" using row_lookup_Some [OF a] row_lookup_Some [OF b] ne by auto
  ultimately show ?thesis by simp
qed

lemma sum_row_update:
  fixes w :: "'r \<Rightarrow> int"
  assumes "keys_unique key rows" and "row_lookup key k rows = Some r"
  shows "sum_list (map w (map (\<lambda>r. if key r = k then f r else r) rows)) = sum_list (map w rows) - w r + w (f r)"
  using assms
proof (induction rows)
  case (Cons x rows)
  show ?case
  proof (cases "key x = k")
    case True
    then have "x = r" using Cons.prems(2) by (simp add: row_lookup_def)
    moreover have "k \<notin> key ` set rows" using Cons.prems(1) True by (simp add: keys_unique_def)
    then have "\<forall>y \<in> set rows. key y \<noteq> k" by blast
    then have "map (\<lambda>r. if key r = k then f r else r) rows = rows" by (intro map_idI) simp
    ultimately show ?thesis using True by simp
  next
    case False
    then have "sum_list (map w (map (\<lambda>r. if key r = k then f r else r) rows)) = sum_list (map w rows) - w r + w (f r)"
      using Cons.prems by (intro Cons.IH) (simp_all add: keys_unique_def row_lookup_def)
    then show ?thesis using False by simp
  qed
qed (simp add: row_lookup_def)

lemma sum_row_member:
  fixes w :: "'r \<Rightarrow> int"
  assumes "r \<in> set rows" and "\<And>x. x \<in> set rows \<Longrightarrow> 0 \<le> w x"
  shows "w r \<le> sum_list (map w rows)"
  using assms
proof (induction rows)
  case (Cons x rows)
  have "0 \<le> sum_list (map w rows)" by (rule sum_list_nonneg) (use Cons.prems(2) in auto)
  then show ?case using Cons by (auto intro: order_trans [of _ "sum_list (map w rows)"])
qed simp

lemma sum_rows_filter:
  fixes w :: "'r \<Rightarrow> int"
  assumes "\<And>r. r \<in> set rows \<Longrightarrow> \<not> p r \<Longrightarrow> w r = 0"
  shows "sum_list (map w (filter p rows)) = sum_list (map w rows)"
  using assms by (induction rows) auto

lemma sum_rows_zero:
  fixes w :: "'r \<Rightarrow> int"
  assumes "\<And>r. r \<in> set rows \<Longrightarrow> w r = 0"
  shows "sum_list (map w rows) = 0"
  using assms by (induction rows) auto

lemma two_rows_affected:
  assumes uniq: "keys_unique key rows" and two: "length (filter (\<lambda>r. (key r = k1 \<or> key r = k2) \<and> p r) rows) = 2"
  obtains a b where "row_lookup key k1 rows = Some a" "p a" "row_lookup key k2 rows = Some b" "p b"
proof -
  let ?rs = "filter (\<lambda>r. (key r = k1 \<or> key r = k2) \<and> p r) rows"
  have "distinct (map key ?rs)" using keys_unique_filter [OF uniq] by (simp add: keys_unique_def)
  then have card: "card (key ` set ?rs) = 2" using two distinct_card by fastforce
  have sub: "key ` set ?rs \<subseteq> {k1, k2}" by auto
  have "card (key ` set ?rs) = card {k1, k2}"
  proof -
    have "card {k1, k2} \<le> 2" by (simp add: card_insert_if)
    then show ?thesis using card card_mono [OF _ sub] by simp
  qed
  then have eq: "key ` set ?rs = {k1, k2}" using sub by (intro card_subset_eq) simp_all
  have found: "\<exists>r. row_lookup key k rows = Some r \<and> p r" if "k \<in> {k1, k2}" for k
  proof -
    have "k \<in> key ` set ?rs" unfolding eq by (rule that)
    then obtain r where r: "r \<in> set ?rs" "k = key r" by (rule imageE)
    then have "r \<in> set rows" "p r" by simp_all
    then show ?thesis using row_lookup_unique [OF uniq] r(2) by auto
  qed
  obtain a where a: "row_lookup key k1 rows = Some a" "p a" using found [of k1] by auto
  obtain b where b: "row_lookup key k2 rows = Some b" "p b" using found [of k2] by auto
  show ?thesis by (rule that [OF a b])
qed

end
