(* ===== verification/Audit_Log.thy ===== *)
theory Audit_Log
  imports Table
begin

text \<open>
  Audit events as the store writes them: the metadata filter of \<^verbatim>\<open>internal/store/models.go\<close> with the JSON
  text it produces, and the insertion into \<^verbatim>\<open>audit_events\<close> with the constraints of the table. Floating-point
  metadata is not modelled; texts are valid UTF-8.
\<close>

section \<open>Metadata\<close>

datatype metadata =
    MNull
  | MBool bool
  | MInt int
  | MString string
  | MList "metadata list"
  | MMap "(string \<times> metadata) list"
  | MUnsupported

definition maxMetadataBytes :: nat where
  "maxMetadataBytes = 32 * 1024"

definition forbiddenMetadataKeys :: "string list" where
  "forbiddenMetadataKeys =
     [''authorization'', ''cookie'', ''prompt'', ''request_body'', ''response_body'',
      ''api_key'', ''access_token'', ''refresh_token'', ''oauth_token'', ''secret'',
      ''source_code'', ''response_text'', ''password'', ''encoded_hash'', ''phc'']"

text \<open>\<^verbatim>\<open>strings.Contains\<close>\<close>

fun contains :: "string \<Rightarrow> string \<Rightarrow> bool" where
  "contains [] sub = (sub = [])"
| "contains (c # s) sub = (take (length sub) (c # s) = sub \<or> contains s sub)"

definition forbidden_key :: "string \<Rightarrow> bool" where
  "forbidden_key key = list_ex (contains (to_lower key)) forbiddenMetadataKeys"

fun validateMetadataValue :: "metadata \<Rightarrow> nat \<Rightarrow> store_error + unit"
  and validate_children :: "metadata list \<Rightarrow> nat \<Rightarrow> store_error + unit"
  and validate_entries :: "(string \<times> metadata) list \<Rightarrow> nat \<Rightarrow> store_error + unit" where
  "validateMetadataValue v depth =
     (if depth > 8 then Inl ErrInvalid
      else case v of
        MMap kvs \<Rightarrow> validate_entries kvs (depth + 1)
      | MList vs \<Rightarrow> validate_children vs (depth + 1)
      | MUnsupported \<Rightarrow> Inl ErrInvalid
      | _ \<Rightarrow> Inr ())"
| "validate_children [] depth = Inr ()"
| "validate_children (v # vs) depth = andThen (validateMetadataValue v depth) (\<lambda>_. validate_children vs depth)"
| "validate_entries [] depth = Inr ()"
| "validate_entries ((key, child) # kvs) depth =
     (if forbidden_key key then Inl ErrInvalid
      else andThen (validateMetadataValue child depth) (\<lambda>_. validate_entries kvs depth))"

text \<open>
  \<^verbatim>\<open>json.Marshal\<close> of such a value: keys sorted, and in strings the quote, the backslash, control characters,
  the HTML characters and U+2028 and U+2029 escaped.
\<close>

definition hex_digit :: "nat \<Rightarrow> char" where
  "hex_digit n = (if n < 10 then char_of (48 + n) else char_of (87 + n))"

definition escape_byte :: "char \<Rightarrow> string" where
  "escape_byte c =
     (let n = of_char c :: nat in
      if n = 34 \<or> n = 92 then [CHR 0x5C, c]
      else if n = 8 then [CHR 0x5C, CHR ''b''] else if n = 12 then [CHR 0x5C, CHR ''f'']
      else if n = 10 then [CHR 0x5C, CHR ''n''] else if n = 13 then [CHR 0x5C, CHR ''r'']
      else if n = 9 then [CHR 0x5C, CHR ''t'']
      else if n < 32 \<or> n = 60 \<or> n = 62 \<or> n = 38
      then [CHR 0x5C, CHR ''u'', CHR ''0'', CHR ''0'', hex_digit (n div 16), hex_digit (n mod 16)]
      else [c])"

fun escape_string :: "string \<Rightarrow> string" where
  "escape_string [] = []"
| "escape_string (c # s) =
     (if c = CHR 0xE2 \<and> take 2 s = [CHR 0x80, CHR 0xA8] then CHR 0x5C # ''u2028'' @ escape_string (drop 2 s)
      else if c = CHR 0xE2 \<and> take 2 s = [CHR 0x80, CHR 0xA9] then CHR 0x5C # ''u2029'' @ escape_string (drop 2 s)
      else escape_byte c @ escape_string s)"

definition quoted :: "string \<Rightarrow> string" where
  "quoted s = CHR 0x22 # escape_string s @ [CHR 0x22]"

definition show_int :: "int \<Rightarrow> string" where
  "show_int i = (if i < 0 then CHR ''-'' # show_nat (nat (- i)) else show_nat (nat i))"

fun json_Marshal :: "metadata \<Rightarrow> string option"
  and marshal_children :: "metadata list \<Rightarrow> string list option"
  and marshal_entries :: "(string \<times> metadata) list \<Rightarrow> (string \<times> string) list option" where
  "json_Marshal MNull = Some ''null''"
| "json_Marshal (MBool b) = Some (if b then ''true'' else ''false'')"
| "json_Marshal (MInt i) = Some (show_int i)"
| "json_Marshal (MString s) = Some (quoted s)"
| "json_Marshal (MList vs) = map_option (\<lambda>ts. ''['' @ join_with '','' ts @ '']'') (marshal_children vs)"
| "json_Marshal (MMap kvs) =
     map_option (\<lambda>ts. CHR 0x7B # join_with '','' (map (\<lambda>(k, t). quoted k @ '':'' @ t) (sort_key fst ts)) @ [CHR 0x7D])
       (marshal_entries kvs)"
| "json_Marshal MUnsupported = None"
| "marshal_children [] = Some []"
| "marshal_children (v # vs) =
     (case (json_Marshal v, marshal_children vs) of (Some t, Some ts) \<Rightarrow> Some (t # ts) | _ \<Rightarrow> None)"
| "marshal_entries [] = Some []"
| "marshal_entries ((k, v) # kvs) =
     (case (json_Marshal v, marshal_entries kvs) of (Some t, Some ts) \<Rightarrow> Some ((k, t) # ts) | _ \<Rightarrow> None)"

text \<open>A nil map, \<open>None\<close>, is written as the empty object.\<close>

definition marshalSafeMetadata :: "(string \<times> metadata) list option \<Rightarrow> store_error + string" where
  "marshalSafeMetadata given =
     (let v = MMap (case given of None \<Rightarrow> [] | Some kvs \<Rightarrow> kvs) in
      andThen (validateMetadataValue v 0)
        (\<lambda>_. case json_Marshal v of
                None \<Rightarrow> Inl ErrInvalid
              | Some b \<Rightarrow> if length b > maxMetadataBytes then Inl ErrInvalid else Inr b))"

section \<open>Events\<close>

text \<open>
  A row of \<^verbatim>\<open>audit_events\<close>. The empty text stands for NULL in the optional columns, as \<^verbatim>\<open>valueOrNil\<close> writes
  it. The users, the sessions with their owners and the address syntax of the database are the
  parameter \<open>refs\<close>.
\<close>

record audit_event =
  OccurredAt :: timestamp
  ActorUserID :: string
  ActorSessionID :: string
  EventType :: string
  Severity :: string
  SourceIP :: string
  SubjectType :: string
  SubjectID :: string
  RequestID :: string
  Metadata :: string

record audit_refs =
  is_user :: "string \<Rightarrow> bool"
  is_session :: "string \<Rightarrow> string \<Rightarrow> bool"
  is_inet :: "string \<Rightarrow> bool"

text \<open>\<^verbatim>\<open>char_length\<close> of a UTF-8 text counts the bytes that are not continuation bytes.\<close>

definition char_length :: "string \<Rightarrow> nat" where
  "char_length s = length (filter (\<lambda>c. \<not> (128 \<le> (of_char c :: nat) \<and> (of_char c :: nat) < 192)) s)"

definition event_type_char :: "char \<Rightarrow> bool" where
  "event_type_char c =
     (is_digit c \<or> 97 \<le> (of_char c :: nat) \<and> (of_char c :: nat) \<le> 122 \<or> c \<in> {CHR ''_'', CHR ''.'', CHR ''-''})"

definition audit_event_check :: "audit_refs \<Rightarrow> audit_event \<Rightarrow> bool" where
  "audit_event_check refs e =
     ((ActorUserID e = [] \<or> is_user refs (ActorUserID e))
      \<and> (ActorSessionID e = [] \<or> ActorUserID e \<noteq> [] \<and> is_session refs (ActorSessionID e) (ActorUserID e))
      \<and> (SourceIP e = [] \<or> is_inet refs (SourceIP e))
      \<and> (RequestID e = [] \<or> 16 \<le> char_length (RequestID e) \<and> char_length (RequestID e) \<le> 128)
      \<and> list_all event_type_char (EventType e) \<and> 3 \<le> length (EventType e) \<and> length (EventType e) \<le> 96
      \<and> Severity e \<in> {''info'', ''warning'', ''critical''})"

definition insert_audit_event :: "audit_refs \<Rightarrow> audit_event \<Rightarrow> audit_event list \<Rightarrow> store_error + audit_event list" where
  "insert_audit_event refs e es = (if audit_event_check refs e then Inr (es @ [e]) else Inl ErrInvalid)"

section \<open>What the filter lets through\<close>

text \<open>The keys of a value at every depth, and its nesting.\<close>

fun metadata_keys :: "metadata \<Rightarrow> string list"
  and children_keys :: "metadata list \<Rightarrow> string list"
  and entries_keys :: "(string \<times> metadata) list \<Rightarrow> string list" where
  "metadata_keys (MMap kvs) = entries_keys kvs"
| "metadata_keys (MList vs) = children_keys vs"
| "metadata_keys _ = []"
| "children_keys [] = []"
| "children_keys (v # vs) = metadata_keys v @ children_keys vs"
| "entries_keys [] = []"
| "entries_keys ((k, v) # kvs) = k # metadata_keys v @ entries_keys kvs"

lemma contains_iff: "contains s sub \<longleftrightarrow> (\<exists>pre post. s = pre @ sub @ post)"
proof (induction s)
  case (Cons c s)
  have "take (length sub) (c # s) = sub \<longleftrightarrow> (\<exists>post. c # s = sub @ post)"
    by (metis append_eq_conv_conj append_take_drop_id)
  moreover have "(\<exists>pre post. c # s = pre @ sub @ post) \<longleftrightarrow>
      (\<exists>post. c # s = sub @ post) \<or> (\<exists>pre post. s = pre @ sub @ post)"
    by (metis append_Cons append_Nil list.exhaust list.inject)
  ultimately show ?case using Cons by simp
qed simp

lemma validated_keys:
  "validateMetadataValue v d = Inr u \<Longrightarrow> k \<in> set (metadata_keys v) \<Longrightarrow> \<not> forbidden_key k"
  "validate_children vs d = Inr u \<Longrightarrow> k \<in> set (children_keys vs) \<Longrightarrow> \<not> forbidden_key k"
  "validate_entries kvs d = Inr u \<Longrightarrow> k \<in> set (entries_keys kvs) \<Longrightarrow> \<not> forbidden_key k"
proof (induction v d and vs d and kvs d arbitrary: u and u and u
    rule: validateMetadataValue_validate_children_validate_entries.induct)
  case (1 v depth)
  then show ?case by (cases v) (simp_all split: if_splits)
next
  case (3 v vs depth)
  then show ?case by (auto simp: andThen_Inr)
next
  case (5 key child kvs depth)
  then show ?case by (auto simp: andThen_Inr split: if_splits)
qed simp_all

text \<open>
  C27: Metadata that the filter accepts has no key, at any depth, whose lower-case form contains one of the
  forbidden words, and its JSON text is at most 32 KiB.
\<close>

theorem marshalSafeMetadata_safe:
  assumes "marshalSafeMetadata (Some kvs) = Inr text" and "key \<in> set (metadata_keys (MMap kvs))"
    and "word \<in> set forbiddenMetadataKeys"
  shows "to_lower key \<noteq> pre @ word @ post \<and> length text \<le> 32768"
proof -
  obtain u where v: "validateMetadataValue (MMap kvs) 0 = Inr u"
    and t: "(case json_Marshal (MMap kvs) of None \<Rightarrow> Inl ErrInvalid
              | Some b \<Rightarrow> if length b > maxMetadataBytes then Inl ErrInvalid else Inr b) = Inr text"
    using assms(1) unfolding marshalSafeMetadata_def Let_def option.case by (elim andThen_InrE)
  have "\<not> forbidden_key key" using validated_keys(1) [OF v assms(2)] .
  then have "\<not> contains (to_lower key) word" using assms(3) by (auto simp: forbidden_key_def list_ex_iff)
  moreover have "length text \<le> maxMetadataBytes" using t by (simp del: json_Marshal.simps split: option.splits if_splits)
  ultimately show ?thesis by (auto simp: contains_iff maxMetadataBytes_def)
qed

theorem marshalSafeMetadata_safe_witness:
  "to_lower ''Via'' \<noteq> ''x'' @ ''secret'' @ [] \<and>
   length (''{'' @ quoted ''Via'' @ '':true}'') \<le> 32768"
proof (rule marshalSafeMetadata_safe)
  show "marshalSafeMetadata (Some [(''Via'', MBool True)]) = Inr (''{'' @ quoted ''Via'' @ '':true}'')" by code_simp
  show "''Via'' \<in> set (metadata_keys (MMap [(''Via'', MBool True)]))" by simp
  show "''secret'' \<in> set forbiddenMetadataKeys" by (simp add: forbiddenMetadataKeys_def)
qed

end
