(* ===== verification/Quota_Guard.thy ===== *)
theory Quota_Guard
  imports Audit_Log
begin

text \<open>
  The quota safety guard of \<^verbatim>\<open>internal/store/upstream_quota_guard.go\<close>: an upstream account leaves allocation
  when a usage window comes close to its limit and returns after the window resets. Modelled are the rule
  itself, the claim of an automatic check, the recording of an observation, the owner's manual switch and
  the change of the safety percentage. Times are at the resolution the database stores.
\<close>

section \<open>Types\<close>

abbreviation MaxUpstreamQuotaGuardPercent :: int where "MaxUpstreamQuotaGuardPercent \<equiv> 50"
abbreviation GuardMinInterval :: duration where "GuardMinInterval \<equiv> 10 * minute"
abbreviation GuardMaxInterval :: duration where "GuardMaxInterval \<equiv> 60 * minute"
abbreviation GuardRestoreDelay :: duration where "GuardRestoreDelay \<equiv> 5 * minute"
abbreviation GuardUnknownResetHold :: duration where "GuardUnknownResetHold \<equiv> hour"
abbreviation GuardSamePeriod :: duration where "GuardSamePeriod \<equiv> 2 * minute"
abbreviation WindowFiveHour :: string where "WindowFiveHour \<equiv> ''five_hour''"
abbreviation WindowSevenDay :: string where "WindowSevenDay \<equiv> ''seven_day''"
abbreviation StatusAvailable :: string where "StatusAvailable \<equiv> ''available''"
abbreviation StatusLimited :: string where "StatusLimited \<equiv> ''limited''"
abbreviation SourceAuto :: string where "SourceAuto \<equiv> ''auto''"
abbreviation SourceManual :: string where "SourceManual \<equiv> ''manual''"

record UpstreamQuotaWindow =
  UsedPercent :: int
  win_ResetAt :: "timestamp option"

record UpstreamQuotaObservation =
  ob_ObservedAt :: timestamp
  ob_FiveHour :: "UpstreamQuotaWindow option"
  ob_SevenDay :: "UpstreamQuotaWindow option"

record upstreamQuotaGuardRow =
  gr_accountID :: string
  gr_status :: string
  gr_source :: string
  gr_limitedWindow :: "string option"
  gr_resetAt :: "timestamp option"
  gr_restoreAt :: "timestamp option"
  gr_changedAt :: "timestamp option"
  gr_observedAt :: "timestamp option"
  gr_fiveHour :: "UpstreamQuotaWindow option"
  gr_sevenDay :: "UpstreamQuotaWindow option"
  gr_autoCheckedAt :: "timestamp option"
  gr_nextCheckAt :: "timestamp option"

record UpstreamQuotaGuardState =
  gs_AccountID :: string
  gs_Status :: string
  gs_Source :: string
  gs_LimitedWindow :: string
  gs_ResetAt :: "timestamp option"
  gs_RestoreAt :: "timestamp option"
  gs_ChangedAt :: "timestamp option"
  gs_ObservedAt :: "timestamp option"
  gs_FiveHour :: "UpstreamQuotaWindow option"
  gs_SevenDay :: "UpstreamQuotaWindow option"
  gs_AutoCheckedAt :: "timestamp option"
  gs_NextCheckAt :: "timestamp option"

record UpstreamQuotaGuardSettings =
  SafetyPercent :: int
  Revision :: go_int64
  UpdatedAt :: timestamp

record UpstreamQuotaCheckClaim =
  cl_Provider :: string
  cl_Claimed :: bool
  cl_NextCheckAt :: timestamp

record upstreamQuotaGuardDecision =
  dc_limited :: bool
  dc_window :: string
  dc_resetAt :: "timestamp option"
  dc_restoreAt :: "timestamp option"
  dc_nextCheckAt :: timestamp

text \<open>
  The database of the component: the account table (identifier, provider), the guard rows, the single
  settings row and the audit log.
\<close>

record guard_db =
  accounts :: "(string \<times> string) list"
  guards :: "upstreamQuotaGuardRow list"
  guard_settings :: UpstreamQuotaGuardSettings
  audit_events :: "audit_event list"

section \<open>The rule\<close>

text \<open>
  \<^verbatim>\<open>Time.Sub\<close> saturates at the range of a duration and the product of a duration and an integer wraps
  at 64 bits.
\<close>

definition time_Sub :: "timestamp \<Rightarrow> timestamp \<Rightarrow> duration" where
  "time_Sub a b = saturate64 (a - b)"

record guard_scan =
  sc_limited :: bool
  sc_window :: string
  sc_resetAt :: "timestamp option"
  sc_unknownReset :: bool
  sc_margin :: int
  sc_interval :: duration

definition predicted_interval ::
  "UpstreamQuotaObservation \<Rightarrow> UpstreamQuotaObservation option \<Rightarrow> UpstreamQuotaWindow \<Rightarrow> UpstreamQuotaWindow option
   \<Rightarrow> int \<Rightarrow> duration \<Rightarrow> duration" where
  "predicted_interval observation previous current prior windowMargin interval =
     (case (previous, prior) of
        (Some prev, Some pw) \<Rightarrow>
          (case (win_ResetAt pw, win_ResetAt current) of
             (Some pr, Some cr) \<Rightarrow>
               if UsedPercent current > UsedPercent pw \<and> ob_ObservedAt observation > ob_ObservedAt prev
               then (let gap = time_Sub cr pr in
                     if gap \<le> GuardSamePeriod \<and> gap \<ge> - GuardSamePeriod
                     then (let elapsed = time_Sub (ob_ObservedAt observation) (ob_ObservedAt prev);
                               untilLimit = go_quo (wrap64 (elapsed * windowMargin)) (UsedPercent current - UsedPercent pw) in
                           min interval (go_quo untilLimit 2))
                     else interval)
               else interval
           | _ \<Rightarrow> interval)
      | _ \<Rightarrow> interval)"

definition scan_window ::
  "UpstreamQuotaObservation \<Rightarrow> UpstreamQuotaObservation option \<Rightarrow> int \<Rightarrow> timestamp
   \<Rightarrow> string \<times> UpstreamQuotaWindow option \<times> UpstreamQuotaWindow option \<Rightarrow> guard_scan \<Rightarrow> guard_scan" where
  "scan_window observation previous percent now item s =
     (let (name, cur, prior) = item in
      case cur of
        None \<Rightarrow> s
      | Some current \<Rightarrow>
          if (case win_ResetAt current of None \<Rightarrow> False | Some r \<Rightarrow> \<not> r > now) then s
          else
            let remaining = 100 - UsedPercent current in
            if remaining \<le> percent
            then
              (let s1 = s\<lparr>sc_limited := True, sc_window := (if sc_window s = [] then name else sc_window s)\<rparr> in
               case win_ResetAt current of
                 None \<Rightarrow> s1\<lparr>sc_unknownReset := True\<rparr>
               | Some r \<Rightarrow>
                   if (case sc_resetAt s1 of None \<Rightarrow> True | Some q \<Rightarrow> r > q)
                   then s1\<lparr>sc_resetAt := Some r, sc_window := name\<rparr> else s1)
            else
              (let windowMargin = remaining - percent;
                   margin = (if sc_margin s < 0 \<or> windowMargin < sc_margin s then windowMargin else sc_margin s) in
               s\<lparr>sc_margin := margin,
                 sc_interval := predicted_interval observation previous current prior windowMargin (sc_interval s)\<rparr>))"

definition scan_start :: guard_scan where
  "scan_start = \<lparr>sc_limited = False, sc_window = [], sc_resetAt = None, sc_unknownReset = False,
     sc_margin = - 1, sc_interval = GuardMaxInterval\<rparr>"

definition scan_windows ::
  "UpstreamQuotaObservation \<Rightarrow> UpstreamQuotaObservation option \<Rightarrow> int \<Rightarrow> timestamp \<Rightarrow> guard_scan" where
  "scan_windows observation previous percent now =
     foldl (\<lambda>s item. scan_window observation previous percent now item s) scan_start
       [(WindowFiveHour, ob_FiveHour observation, Option.bind previous ob_FiveHour),
        (WindowSevenDay, ob_SevenDay observation, Option.bind previous ob_SevenDay)]"

definition next_interval :: "int \<Rightarrow> duration \<Rightarrow> duration" where
  "next_interval margin interval =
     (let i = (if margin < 0 then GuardMinInterval
               else if margin \<le> 10 then min interval GuardMinInterval
               else if margin \<le> 20 then min interval (15 * minute)
               else if margin \<le> 35 then min interval (30 * minute)
               else interval) in
      max GuardMinInterval (min GuardMaxInterval i))"

definition evaluateUpstreamQuotaGuard ::
  "UpstreamQuotaObservation \<Rightarrow> UpstreamQuotaObservation option \<Rightarrow> int \<Rightarrow> timestamp \<Rightarrow> upstreamQuotaGuardDecision" where
  "evaluateUpstreamQuotaGuard observation previous percent now =
     (let s = scan_windows observation previous percent now in
      if sc_limited s
      then
        (let hold = now + GuardUnknownResetHold;
             restore = (case sc_resetAt s of
                          None \<Rightarrow> hold
                        | Some r \<Rightarrow> if \<not> sc_unknownReset s \<or> r + GuardRestoreDelay > hold then r + GuardRestoreDelay else hold) in
         \<lparr>dc_limited = True, dc_window = sc_window s, dc_resetAt = sc_resetAt s,
          dc_restoreAt = Some restore, dc_nextCheckAt = restore\<rparr>)
      else
        \<lparr>dc_limited = False, dc_window = sc_window s, dc_resetAt = sc_resetAt s, dc_restoreAt = None,
         dc_nextCheckAt = now + next_interval (sc_margin s) (sc_interval s)\<rparr>)"

definition later_reset :: "timestamp \<Rightarrow> UpstreamQuotaWindow option \<Rightarrow> timestamp option" where
  "later_reset now w =
     (case w of None \<Rightarrow> None | Some x \<Rightarrow>
        (case win_ResetAt x of None \<Rightarrow> None | Some r \<Rightarrow> if r > now then Some r else None))"

fun soonest_step :: "timestamp \<Rightarrow> (string \<times> timestamp) option \<Rightarrow> (string \<times> UpstreamQuotaWindow option) list
  \<Rightarrow> (string \<times> timestamp) option" where
  "soonest_step now best [] = best"
| "soonest_step now best ((name, w) # items) =
     soonest_step now
       (case later_reset now w of
          None \<Rightarrow> best
        | Some r \<Rightarrow> (case best of None \<Rightarrow> Some (name, r) | Some (n, q) \<Rightarrow> if r < q then Some (name, r) else best))
       items"

definition soonestUpstreamQuotaReset :: "upstreamQuotaGuardRow \<Rightarrow> timestamp \<Rightarrow> (string \<times> timestamp) option" where
  "soonestUpstreamQuotaReset row now =
     soonest_step now None [(WindowFiveHour, gr_fiveHour row), (WindowSevenDay, gr_sevenDay row)]"

definition window_in_range :: "UpstreamQuotaWindow option \<Rightarrow> bool" where
  "window_in_range w = (case w of None \<Rightarrow> True | Some x \<Rightarrow> 0 \<le> UsedPercent x \<and> UsedPercent x \<le> 100)"

definition validUpstreamQuotaObservation :: "UpstreamQuotaObservation \<Rightarrow> bool" where
  "validUpstreamQuotaObservation ob = (window_in_range (ob_FiveHour ob) \<and> window_in_range (ob_SevenDay ob))"

section \<open>Rows and states\<close>

definition limitedAt :: "upstreamQuotaGuardRow \<Rightarrow> timestamp \<Rightarrow> bool" where
  "limitedAt row stamp =
     (gr_status row = StatusLimited \<and> (case gr_restoreAt row of None \<Rightarrow> True | Some r \<Rightarrow> r > stamp))"

definition guard_snapshot :: "upstreamQuotaGuardRow \<Rightarrow> UpstreamQuotaObservation option" where
  "guard_snapshot row =
     (case gr_observedAt row of None \<Rightarrow> None
      | Some t \<Rightarrow> Some \<lparr>ob_ObservedAt = t, ob_FiveHour = gr_fiveHour row, ob_SevenDay = gr_sevenDay row\<rparr>)"

definition guard_state :: "upstreamQuotaGuardRow \<Rightarrow> timestamp \<Rightarrow> UpstreamQuotaGuardState" where
  "guard_state row stamp =
     (let s = \<lparr> gs_AccountID = gr_accountID row, gs_Status = StatusAvailable, gs_Source = gr_source row,
               gs_LimitedWindow = [], gs_ResetAt = None, gs_RestoreAt = None, gs_ChangedAt = gr_changedAt row,
               gs_ObservedAt = gr_observedAt row, gs_FiveHour = gr_fiveHour row, gs_SevenDay = gr_sevenDay row,
               gs_AutoCheckedAt = gr_autoCheckedAt row, gs_NextCheckAt = gr_nextCheckAt row \<rparr> in
      if limitedAt row stamp
      then s\<lparr>gs_Status := StatusLimited,
             gs_LimitedWindow := (case gr_limitedWindow row of None \<Rightarrow> [] | Some w \<Rightarrow> w),
             gs_ResetAt := gr_resetAt row, gs_RestoreAt := gr_restoreAt row\<rparr>
      else s)"

definition NextAutomaticCheck :: "UpstreamQuotaGuardState \<Rightarrow> timestamp" where
  "NextAutomaticCheck s =
     (let nxt = (case gs_NextCheckAt s of None \<Rightarrow> 0 | Some t \<Rightarrow> t) in
      case gs_AutoCheckedAt s of
        None \<Rightarrow> nxt
      | Some c \<Rightarrow> if c + GuardMinInterval > nxt then c + GuardMinInterval else nxt)"

text \<open>The condition \<^verbatim>\<open>upstreamQuotaGuardHeld\<close> adds to allocation queries.\<close>

definition upstreamQuotaGuardHeld :: "guard_db \<Rightarrow> string \<Rightarrow> timestamp \<Rightarrow> bool" where
  "upstreamQuotaGuardHeld db account stamp =
     (\<exists>q \<in> set (guards db). gr_accountID q = account \<and> gr_status q = StatusLimited
        \<and> (case gr_restoreAt q of None \<Rightarrow> True | Some r \<Rightarrow> r > stamp))"

section \<open>Operations\<close>

abbreviation ProviderCodex :: string where "ProviderCodex \<equiv> ''codex''"
abbreviation ProviderAnthropic :: string where "ProviderAnthropic \<equiv> ''anthropic''"

definition guardedUpstreamProvider :: "string \<Rightarrow> bool" where
  "guardedUpstreamProvider provider = (provider = ProviderCodex \<or> provider = ProviderAnthropic)"

text \<open>\<^verbatim>\<open>^[a-f0-9]{16}$\<close>\<close>

definition upstreamAccountIDPattern :: "string \<Rightarrow> bool" where
  "upstreamAccountIDPattern s =
     (length s = 16 \<and> list_all (\<lambda>c. is_digit c \<or> 97 \<le> (of_char c :: nat) \<and> (of_char c :: nat) \<le> 102) s)"

definition blank_row :: "string \<Rightarrow> upstreamQuotaGuardRow" where
  "blank_row account =
     \<lparr> gr_accountID = account, gr_status = StatusAvailable, gr_source = SourceAuto, gr_limitedWindow = None,
       gr_resetAt = None, gr_restoreAt = None, gr_changedAt = None, gr_observedAt = None, gr_fiveHour = None,
       gr_sevenDay = None, gr_autoCheckedAt = None, gr_nextCheckAt = None \<rparr>"

text \<open>The check constraints of the table.\<close>

definition guard_row_check :: "upstreamQuotaGuardRow \<Rightarrow> bool" where
  "guard_row_check r =
     (gr_status r \<in> {StatusAvailable, StatusLimited} \<and> gr_source r \<in> {SourceAuto, SourceManual}
      \<and> (\<forall>w \<in> set_option (gr_limitedWindow r). w \<in> {WindowFiveHour, WindowSevenDay})
      \<and> window_in_range (gr_fiveHour r) \<and> window_in_range (gr_sevenDay r)
      \<and> (gr_status r = StatusLimited \<or> gr_limitedWindow r = None \<and> gr_resetAt r = None \<and> gr_restoreAt r = None)
      \<and> (case (gr_resetAt r, gr_restoreAt r) of (Some a, Some b) \<Rightarrow> b > a | _ \<Rightarrow> True))"

text \<open>The zero time stands for an unset parameter; \<open>now\<close> is the clock of the store.\<close>

definition normalizedGuardTime :: "timestamp \<Rightarrow> timestamp \<Rightarrow> timestamp" where
  "normalizedGuardTime stamp now = (if stamp = 0 then now else stamp)"

definition account_provider :: "guard_db \<Rightarrow> string \<Rightarrow> string option" where
  "account_provider db account = map_of (accounts db) account"

definition ClaimUpstreamQuotaCheck ::
  "guard_db \<Rightarrow> string \<Rightarrow> timestamp \<Rightarrow> timestamp \<Rightarrow> (store_error + UpstreamQuotaCheckClaim) \<times> guard_db" where
  "ClaimUpstreamQuotaCheck db account at0 now =
     (if \<not> upstreamAccountIDPattern account then (Inl ErrInvalid, db)
      else
        let stamp = normalizedGuardTime at0 now in
        case account_provider db account of
          None \<Rightarrow> (Inr \<lparr>cl_Provider = [], cl_Claimed = False, cl_NextCheckAt = 0\<rparr>, db)
        | Some provider \<Rightarrow>
            if \<not> guardedUpstreamProvider provider
            then (Inr \<lparr>cl_Provider = [], cl_Claimed = False, cl_NextCheckAt = 0\<rparr>, db)
            else
              (case row_lookup gr_accountID account (guards db) of
                 None \<Rightarrow>
                   (Inr \<lparr>cl_Provider = provider, cl_Claimed = True, cl_NextCheckAt = 0\<rparr>,
                    db\<lparr>guards := guards db @ [(blank_row account)\<lparr>gr_autoCheckedAt := Some stamp\<rparr>]\<rparr>)
               | Some g \<Rightarrow>
                   if (\<forall>n \<in> set_option (gr_nextCheckAt g). n \<le> stamp)
                      \<and> (\<forall>c \<in> set_option (gr_autoCheckedAt g). c \<le> stamp - GuardMinInterval)
                   then (Inr \<lparr>cl_Provider = provider, cl_Claimed = True, cl_NextCheckAt = 0\<rparr>,
                         db\<lparr>guards := row_update gr_accountID account (\<lambda>r. r\<lparr>gr_autoCheckedAt := Some stamp\<rparr>) (guards db)\<rparr>)
                   else (Inr \<lparr>cl_Provider = provider, cl_Claimed = False,
                              cl_NextCheckAt = NextAutomaticCheck (guard_state g stamp)\<rparr>, db)))"

definition lockUpstreamQuotaGuardRowTx ::
  "guard_db \<Rightarrow> string \<Rightarrow> string \<Rightarrow> store_error + (upstreamQuotaGuardRow \<times> guard_db)" where
  "lockUpstreamQuotaGuardRowTx db account provider =
     (if account_provider db account \<noteq> Some provider then Inl ErrNotFound
      else
        let gs = sql_insert_ignore gr_accountID (blank_row account) (guards db) in
        case row_lookup gr_accountID account gs of
          None \<Rightarrow> Inl ErrNotFound
        | Some row \<Rightarrow> Inr (row, db\<lparr>guards := gs\<rparr>))"

text \<open>\<^verbatim>\<open>UPDATE upstream_quota_guard_states SET ... WHERE account_id = $1\<close> and the read that follows it.\<close>

definition update_guard ::
  "guard_db \<Rightarrow> string \<Rightarrow> (upstreamQuotaGuardRow \<Rightarrow> upstreamQuotaGuardRow) \<Rightarrow> store_error + guard_db" where
  "update_guard db account f =
     andThen (sql_update guard_row_check (\<lambda>r. gr_accountID r = account) f (guards db))
       (\<lambda>(gs, n). Inr (db\<lparr>guards := gs\<rparr>))"

definition read_guard_state :: "guard_db \<Rightarrow> string \<Rightarrow> timestamp \<Rightarrow> store_error + UpstreamQuotaGuardState" where
  "read_guard_state db account stamp =
     (case row_lookup gr_accountID account (guards db) of
        None \<Rightarrow> Inl ErrNotFound | Some r \<Rightarrow> Inr (guard_state r stamp))"

text \<open>\<^verbatim>\<open>Format(time.RFC3339)\<close> of an instant in UTC.\<close>

definition rfc3339 :: "timestamp \<Rightarrow> string" where
  "rfc3339 t =
     (let secs = nat (t div second); (y, mo, d) = date_of_days (secs div 86400); r = secs mod 86400 in
      pad_left 4 (show_nat y) @ ''-'' @ pad_left 2 (show_nat mo) @ ''-'' @ pad_left 2 (show_nat d) @ ''T''
      @ pad_left 2 (show_nat (r div 3600)) @ '':'' @ pad_left 2 (show_nat (r div 60 mod 60)) @ '':''
      @ pad_left 2 (show_nat (r mod 60)) @ ''Z'')"

text \<open>Who makes a change, as the parameters carry it.\<close>

record guard_actor =
  ac_UserID :: string
  ac_SessionID :: string
  ac_SourceIP :: string
  ac_RequestID :: string

definition no_actor :: guard_actor where
  "no_actor = \<lparr>ac_UserID = [], ac_SessionID = [], ac_SourceIP = [], ac_RequestID = []\<rparr>"

definition append_event ::
  "audit_refs \<Rightarrow> guard_db \<Rightarrow> timestamp \<Rightarrow> guard_actor \<Rightarrow> string \<Rightarrow> string \<Rightarrow> string \<Rightarrow> (string \<times> metadata) list
   \<Rightarrow> store_error + guard_db" where
  "append_event refs db stamp actor eventType subjectType subject md =
     andThen (marshalSafeMetadata (Some md))
       (\<lambda>data. andThen
          (insert_audit_event refs
             \<lparr> OccurredAt = stamp, ActorUserID = ac_UserID actor, ActorSessionID = ac_SessionID actor,
               EventType = eventType, Severity = ''info'', SourceIP = ac_SourceIP actor,
               SubjectType = subjectType, SubjectID = subject, RequestID = ac_RequestID actor,
               Metadata = data \<rparr> (audit_events db))
          (\<lambda>es. Inr (db\<lparr>audit_events := es\<rparr>)))"

definition appendUpstreamQuotaGuardAuditTx ::
  "audit_refs \<Rightarrow> guard_db \<Rightarrow> timestamp \<Rightarrow> guard_actor \<Rightarrow> string \<Rightarrow> string \<Rightarrow> (string \<times> metadata) list
   \<Rightarrow> store_error + guard_db" where
  "appendUpstreamQuotaGuardAuditTx refs db stamp actor eventType account md =
     append_event refs db stamp actor eventType ''upstream_account'' account md"

definition guardAuditWindowMetadata ::
  "(string \<times> metadata) list \<Rightarrow> UpstreamQuotaObservation \<Rightarrow> (string \<times> metadata) list" where
  "guardAuditWindowMetadata md ob =
     md @ (case ob_FiveHour ob of None \<Rightarrow> [] | Some w \<Rightarrow> [(''five_hour_used_percent'', MInt (UsedPercent w))])
        @ (case ob_SevenDay ob of None \<Rightarrow> [] | Some w \<Rightarrow> [(''seven_day_used_percent'', MInt (UsedPercent w))])"

definition transition_metadata :: "bool \<Rightarrow> int \<Rightarrow> upstreamQuotaGuardDecision \<Rightarrow> (string \<times> metadata) list" where
  "transition_metadata automatic percent decision =
     [(''via'', MString (if automatic then ''automatic'' else ''observation'')), (''safety_percent'', MInt percent)]
     @ (if dc_limited decision
        then (''window'', MString (dc_window decision))
             # (case dc_resetAt decision of None \<Rightarrow> [] | Some r \<Rightarrow> [(''reset_at'', MString (rfc3339 r))])
        else [])"

definition record_snapshot :: "UpstreamQuotaObservation \<Rightarrow> upstreamQuotaGuardRow \<Rightarrow> upstreamQuotaGuardRow" where
  "record_snapshot ob r =
     r\<lparr>gr_observedAt := Some (ob_ObservedAt ob), gr_fiveHour := ob_FiveHour ob, gr_sevenDay := ob_SevenDay ob\<rparr>"

definition apply_decision ::
  "upstreamQuotaGuardDecision \<Rightarrow> timestamp option \<Rightarrow> upstreamQuotaGuardRow \<Rightarrow> upstreamQuotaGuardRow" where
  "apply_decision d changedAt r =
     r\<lparr>gr_status := (if dc_limited d then StatusLimited else StatusAvailable),
       gr_limitedWindow := (if dc_limited d then Some (dc_window d) else None),
       gr_resetAt := dc_resetAt d, gr_restoreAt := dc_restoreAt d, gr_changedAt := changedAt\<rparr>"

definition apply_observation ::
  "audit_refs \<Rightarrow> guard_db \<Rightarrow> string \<Rightarrow> UpstreamQuotaObservation \<Rightarrow> bool \<Rightarrow> upstreamQuotaGuardRow \<Rightarrow> timestamp
   \<Rightarrow> store_error + guard_db" where
  "apply_observation refs db account ob automatic current stamp =
     (let percent = SafetyPercent (guard_settings db);
          decision = evaluateUpstreamQuotaGuard ob (guard_snapshot current) percent stamp;
          wasLimited = limitedAt current stamp;
          changedAt = (if wasLimited \<noteq> dc_limited decision \<or> gr_source current \<noteq> SourceAuto
                       then Some stamp else gr_changedAt current) in
      andThen
        (update_guard db account (\<lambda>r. (record_snapshot ob (apply_decision decision changedAt r))
           \<lparr>gr_source := SourceAuto, gr_nextCheckAt := Some (dc_nextCheckAt decision)\<rparr>))
        (\<lambda>db1. if wasLimited \<noteq> dc_limited decision
               then appendUpstreamQuotaGuardAuditTx refs db1 stamp no_actor
                      (if dc_limited decision then ''upstream_quota_guard.limited'' else ''upstream_quota_guard.restored'')
                      account (guardAuditWindowMetadata (transition_metadata automatic percent decision) ob)
               else Inr db1))"

definition recordUpstreamQuotaObservationTx ::
  "audit_refs \<Rightarrow> string \<Rightarrow> UpstreamQuotaObservation \<Rightarrow> string \<Rightarrow> bool \<Rightarrow> timestamp \<Rightarrow> guard_db
   \<Rightarrow> store_error + (UpstreamQuotaGuardState \<times> guard_db)" where
  "recordUpstreamQuotaObservationTx refs provider ob account automatic stamp db =
     andThen (lockUpstreamQuotaGuardRowTx db account provider)
       (\<lambda>(current, db1).
          andThen
            (if \<not> automatic \<and> gr_source current = SourceManual
             then update_guard db1 account (record_snapshot ob)
             else apply_observation refs db1 account ob automatic current stamp)
            (\<lambda>db2. andThen (read_guard_state db2 account stamp) (\<lambda>s. Inr (s, db2))))"

definition RecordUpstreamQuotaObservation ::
  "audit_refs \<Rightarrow> guard_db \<Rightarrow> string \<Rightarrow> string \<Rightarrow> UpstreamQuotaObservation \<Rightarrow> bool \<Rightarrow> timestamp \<Rightarrow> timestamp
   \<Rightarrow> (store_error + UpstreamQuotaGuardState) \<times> guard_db" where
  "RecordUpstreamQuotaObservation refs db provider account ob automatic at0 now =
     (if \<not> guardedUpstreamProvider provider \<or> \<not> upstreamAccountIDPattern account
         \<or> \<not> validUpstreamQuotaObservation ob then (Inl ErrInvalid, db)
      else
        let stamp = normalizedGuardTime at0 now;
            ob' = (if ob_ObservedAt ob = 0 then ob\<lparr>ob_ObservedAt := stamp\<rparr> else ob) in
        withTx (recordUpstreamQuotaObservationTx refs provider ob' account automatic stamp) db)"

definition set_manually ::
  "bool \<Rightarrow> timestamp \<Rightarrow> upstreamQuotaGuardRow \<Rightarrow> upstreamQuotaGuardRow \<Rightarrow> upstreamQuotaGuardRow" where
  "set_manually limited stamp current r =
     (let soonest = (if limited then soonestUpstreamQuotaReset current stamp else None);
          following = (case gr_autoCheckedAt current of
                         None \<Rightarrow> stamp
                       | Some c \<Rightarrow> if c + GuardMinInterval > stamp then c + GuardMinInterval else stamp) in
      r\<lparr>gr_status := (if limited then StatusLimited else StatusAvailable), gr_source := SourceManual,
        gr_limitedWindow := map_option fst soonest, gr_resetAt := map_option snd soonest,
        gr_restoreAt := map_option (\<lambda>(_, t). t + GuardRestoreDelay) soonest, gr_changedAt := Some stamp,
        gr_nextCheckAt := (if limited then map_option (\<lambda>(_, t). t + GuardRestoreDelay) soonest else Some following)\<rparr>)"

definition manual_metadata :: "bool \<Rightarrow> timestamp \<Rightarrow> upstreamQuotaGuardRow \<Rightarrow> (string \<times> metadata) list" where
  "manual_metadata limited stamp current =
     (''limited'', MBool limited)
     # (case (if limited then soonestUpstreamQuotaReset current stamp else None) of
          None \<Rightarrow> []
        | Some (name, t) \<Rightarrow> [(''window'', MString name), (''reset_at'', MString (rfc3339 t))])"

definition setUpstreamQuotaGuardStatusTx ::
  "audit_refs \<Rightarrow> string \<Rightarrow> string \<Rightarrow> bool \<Rightarrow> guard_actor \<Rightarrow> timestamp \<Rightarrow> guard_db
   \<Rightarrow> store_error + (UpstreamQuotaGuardState \<times> guard_db)" where
  "setUpstreamQuotaGuardStatusTx refs provider account limited actor stamp db =
     andThen (lockUpstreamQuotaGuardRowTx db account provider)
       (\<lambda>(current, db1).
          if limitedAt current stamp = limited then Inr (guard_state current stamp, db1)
          else
            andThen (update_guard db1 account (set_manually limited stamp current))
              (\<lambda>db2. andThen
                 (appendUpstreamQuotaGuardAuditTx refs db2 stamp actor ''upstream_quota_guard.manual_set'' account
                    (manual_metadata limited stamp current))
                 (\<lambda>db3. andThen (read_guard_state db3 account stamp) (\<lambda>s. Inr (s, db3)))))"

definition SetUpstreamQuotaGuardStatus ::
  "audit_refs \<Rightarrow> guard_db \<Rightarrow> string \<Rightarrow> string \<Rightarrow> bool \<Rightarrow> guard_actor \<Rightarrow> timestamp \<Rightarrow> timestamp
   \<Rightarrow> (store_error + UpstreamQuotaGuardState) \<times> guard_db" where
  "SetUpstreamQuotaGuardStatus refs db provider account limited actor at0 now =
     (if \<not> guardedUpstreamProvider provider \<or> \<not> upstreamAccountIDPattern account \<or> trim_space (ac_UserID actor) = []
      then (Inl ErrInvalid, db)
      else withTx (setUpstreamQuotaGuardStatusTx refs provider account limited actor (normalizedGuardTime at0 now)) db)"

definition reapply_row :: "int \<Rightarrow> timestamp \<Rightarrow> upstreamQuotaGuardRow \<Rightarrow> upstreamQuotaGuardRow" where
  "reapply_row percent stamp row =
     (case guard_snapshot row of
        None \<Rightarrow> row
      | Some ob \<Rightarrow>
          let decision = evaluateUpstreamQuotaGuard ob None percent stamp;
              changedAt = (if limitedAt row stamp \<noteq> dc_limited decision then Some stamp else gr_changedAt row) in
          (apply_decision decision changedAt row)
            \<lparr>gr_nextCheckAt := (if dc_limited decision then Some (dc_nextCheckAt decision) else None)\<rparr>)"

definition reapplied :: "upstreamQuotaGuardRow \<Rightarrow> bool" where
  "reapplied r = (gr_source r = SourceAuto \<and> gr_observedAt r \<noteq> None)"

text \<open>The rows whose state the new percentage turns to \<open>limited\<close>, or away from it.\<close>

definition count_changes :: "bool \<Rightarrow> int \<Rightarrow> timestamp \<Rightarrow> upstreamQuotaGuardRow list \<Rightarrow> nat" where
  "count_changes limited percent stamp rows =
     length (filter (\<lambda>r. case guard_snapshot r of None \<Rightarrow> False
         | Some ob \<Rightarrow> limitedAt r stamp \<noteq> limited
             \<and> dc_limited (evaluateUpstreamQuotaGuard ob None percent stamp) = limited)
       (filter reapplied rows))"

definition setUpstreamQuotaGuardSettingsTx ::
  "audit_refs \<Rightarrow> int \<Rightarrow> guard_actor \<Rightarrow> timestamp \<Rightarrow> guard_db
   \<Rightarrow> store_error + (UpstreamQuotaGuardSettings \<times> guard_db)" where
  "setUpstreamQuotaGuardSettingsTx refs percent actor stamp db =
     (let previous = SafetyPercent (guard_settings db); revision = Revision (guard_settings db) + 1;
          settings = \<lparr>SafetyPercent = percent, Revision = revision, UpdatedAt = stamp\<rparr> in
      andThen (guard (revision < 2 ^ 63) ErrInvalid)
        (\<lambda>_. andThen (sql_update guard_row_check reapplied (reapply_row percent stamp) (guards db))
          (\<lambda>(gs, n). andThen
             (append_event refs (db\<lparr>guard_settings := settings, guards := gs\<rparr>) stamp actor
                ''upstream_quota_guard.settings_updated'' ''upstream_quota_guard_settings'' ''global''
                [(''previous_safety_percent'', MInt previous), (''safety_percent'', MInt percent),
                 (''revision'', MInt revision),
                 (''limited_accounts'', MInt (int (count_changes True percent stamp (guards db)))),
                 (''restored_accounts'', MInt (int (count_changes False percent stamp (guards db))))])
             (\<lambda>db1. Inr (settings, db1)))))"

definition SetUpstreamQuotaGuardSettings ::
  "audit_refs \<Rightarrow> guard_db \<Rightarrow> int \<Rightarrow> guard_actor \<Rightarrow> timestamp \<Rightarrow> timestamp
   \<Rightarrow> (store_error + UpstreamQuotaGuardSettings) \<times> guard_db" where
  "SetUpstreamQuotaGuardSettings refs db percent actor at0 now =
     (if percent < 0 \<or> percent > MaxUpstreamQuotaGuardPercent \<or> trim_space (ac_UserID actor) = []
      then (Inl ErrInvalid, db)
      else withTx (setUpstreamQuotaGuardSettingsTx refs percent actor (normalizedGuardTime at0 now)) db)"

definition ListUpstreamQuotaGuards ::
  "guard_db \<Rightarrow> string \<Rightarrow> timestamp \<Rightarrow> timestamp \<Rightarrow> UpstreamQuotaGuardSettings \<times> UpstreamQuotaGuardState list" where
  "ListUpstreamQuotaGuards db provider at0 now =
     (let stamp = normalizedGuardTime at0 now in
      (guard_settings db,
       if \<not> guardedUpstreamProvider provider then []
       else map (\<lambda>r. guard_state r stamp)
              (sort_key gr_accountID (filter (\<lambda>g. account_provider db (gr_accountID g) = Some provider) (guards db)))))"

section \<open>What the rule decides\<close>

text \<open>A window counts while its reset is not known to have passed, and trips at the safety percentage.\<close>

definition window_tripped :: "int \<Rightarrow> timestamp \<Rightarrow> UpstreamQuotaWindow option \<Rightarrow> bool" where
  "window_tripped percent now w =
     (case w of None \<Rightarrow> False
      | Some x \<Rightarrow> (case win_ResetAt x of None \<Rightarrow> True | Some r \<Rightarrow> r > now) \<and> 100 - UsedPercent x \<le> percent)"

definition tripped_reset :: "int \<Rightarrow> timestamp \<Rightarrow> UpstreamQuotaWindow option \<Rightarrow> timestamp option" where
  "tripped_reset percent now w = (if window_tripped percent now w then Option.bind w win_ResetAt else None)"

definition window_reset_unknown :: "int \<Rightarrow> timestamp \<Rightarrow> UpstreamQuotaWindow option \<Rightarrow> bool" where
  "window_reset_unknown percent now w = (window_tripped percent now w \<and> Option.bind w win_ResetAt = None)"

fun later_of :: "timestamp option \<Rightarrow> timestamp option \<Rightarrow> timestamp option" where
  "later_of None r = r"
| "later_of q None = q"
| "later_of (Some q) (Some r) = Some (max q r)"

lemmas window_defs = window_tripped_def tripped_reset_def window_reset_unknown_def

lemma scan_window_fields:
  "sc_limited (scan_window ob prev percent now (name, w, prior) s) = (sc_limited s \<or> window_tripped percent now w)"
  "sc_unknownReset (scan_window ob prev percent now (name, w, prior) s) =
     (sc_unknownReset s \<or> window_reset_unknown percent now w)"
  "sc_resetAt (scan_window ob prev percent now (name, w, prior) s) =
     later_of (sc_resetAt s) (tripped_reset percent now w)"
  "sc_window (scan_window ob prev percent now (name, w, prior) s) \<in> {sc_window s, name}"
  "window_tripped percent now w \<Longrightarrow> name \<noteq> [] \<Longrightarrow> sc_window (scan_window ob prev percent now (name, w, prior) s) \<noteq> []"
  "sc_window s \<noteq> [] \<Longrightarrow> name \<noteq> [] \<Longrightarrow> sc_window (scan_window ob prev percent now (name, w, prior) s) \<noteq> []"
  by (cases "sc_resetAt s"; cases w;
      auto simp: scan_window_def window_defs Let_def max_def split: option.splits)+

lemma tripped_reset_future: "tripped_reset percent now w = Some r \<Longrightarrow> r > now"
  by (auto simp: window_defs split: option.splits if_splits)

lemma scan_windows_fields:
  fixes ob prev percent now
  defines "s \<equiv> scan_windows ob prev percent now"
  shows "sc_limited s = (window_tripped percent now (ob_FiveHour ob) \<or> window_tripped percent now (ob_SevenDay ob))"
    and "sc_unknownReset s =
      (window_reset_unknown percent now (ob_FiveHour ob) \<or> window_reset_unknown percent now (ob_SevenDay ob))"
    and "sc_resetAt s = later_of (tripped_reset percent now (ob_FiveHour ob)) (tripped_reset percent now (ob_SevenDay ob))"
    and "sc_limited s \<Longrightarrow> sc_window s \<in> {WindowFiveHour, WindowSevenDay}"
proof -
  define s1 where "s1 = scan_window ob prev percent now
    (WindowFiveHour, ob_FiveHour ob, Option.bind prev ob_FiveHour) scan_start"
  have s: "s = scan_window ob prev percent now (WindowSevenDay, ob_SevenDay ob, Option.bind prev ob_SevenDay) s1"
    by (simp add: s_def s1_def scan_windows_def)
  have s0: "sc_limited scan_start = False" "sc_unknownReset scan_start = False" "sc_resetAt scan_start = None"
    "sc_window scan_start = []"
    by (simp_all add: scan_start_def)
  note one = scan_window_fields [where ob = ob and prev = prev and percent = percent and now = now]
  have a: "sc_limited s1 = window_tripped percent now (ob_FiveHour ob)"
    "sc_unknownReset s1 = window_reset_unknown percent now (ob_FiveHour ob)"
    "sc_resetAt s1 = tripped_reset percent now (ob_FiveHour ob)"
    "sc_window s1 \<in> {[], WindowFiveHour}"
    unfolding s1_def using one(1-4) [of WindowFiveHour "ob_FiveHour ob" "Option.bind prev ob_FiveHour" scan_start] s0
    by simp_all
  show lim: "sc_limited s = (window_tripped percent now (ob_FiveHour ob) \<or> window_tripped percent now (ob_SevenDay ob))"
    and "sc_unknownReset s =
      (window_reset_unknown percent now (ob_FiveHour ob) \<or> window_reset_unknown percent now (ob_SevenDay ob))"
    and "sc_resetAt s = later_of (tripped_reset percent now (ob_FiveHour ob)) (tripped_reset percent now (ob_SevenDay ob))"
    unfolding s one(1-3) a(1-3) by simp_all
  assume "sc_limited s"
  then have "sc_window s \<noteq> []"
    unfolding lim unfolding s using one(5) [of "ob_SevenDay ob" WindowSevenDay] one(6) [of s1 WindowSevenDay]
      one(5) [of "ob_FiveHour ob" WindowFiveHour "Option.bind prev ob_FiveHour" scan_start, folded s1_def] by auto
  moreover have "sc_window s \<in> {sc_window s1, WindowSevenDay}" unfolding s by (rule one(4))
  ultimately show "sc_window s \<in> {WindowFiveHour, WindowSevenDay}" using a(4) by auto
qed

lemma next_interval_bounds: "GuardMinInterval \<le> next_interval m i" "next_interval m i \<le> GuardMaxInterval"
  by (simp_all add: next_interval_def Let_def)

text \<open>The decision in terms of the two windows.\<close>

lemma evaluate_limited:
  "dc_limited (evaluateUpstreamQuotaGuard ob prev percent now) =
     (window_tripped percent now (ob_FiveHour ob) \<or> window_tripped percent now (ob_SevenDay ob))"
  by (simp add: evaluateUpstreamQuotaGuard_def Let_def scan_windows_fields(1))

lemma evaluate_reset:
  "dc_resetAt (evaluateUpstreamQuotaGuard ob prev percent now) =
     later_of (tripped_reset percent now (ob_FiveHour ob)) (tripped_reset percent now (ob_SevenDay ob))"
  by (simp add: evaluateUpstreamQuotaGuard_def Let_def scan_windows_fields(3))

lemma evaluate_window:
  "dc_limited (evaluateUpstreamQuotaGuard ob prev percent now) \<Longrightarrow>
     dc_window (evaluateUpstreamQuotaGuard ob prev percent now) \<in> {WindowFiveHour, WindowSevenDay}"
  unfolding evaluateUpstreamQuotaGuard_def Let_def
  by (cases "sc_limited (scan_windows ob prev percent now)") (use scan_windows_fields(4) in \<open>simp_all\<close>)

lemma evaluate_open:
  assumes "\<not> dc_limited (evaluateUpstreamQuotaGuard ob prev percent now)"
  shows "dc_resetAt (evaluateUpstreamQuotaGuard ob prev percent now) = None"
    and "dc_restoreAt (evaluateUpstreamQuotaGuard ob prev percent now) = None"
    and "now + GuardMinInterval \<le> dc_nextCheckAt (evaluateUpstreamQuotaGuard ob prev percent now)"
    and "dc_nextCheckAt (evaluateUpstreamQuotaGuard ob prev percent now) \<le> now + GuardMaxInterval"
proof -
  show "dc_resetAt (evaluateUpstreamQuotaGuard ob prev percent now) = None"
    using assms unfolding evaluate_limited evaluate_reset by (simp add: tripped_reset_def)
  have "\<not> sc_limited (scan_windows ob prev percent now)"
    using assms unfolding evaluate_limited scan_windows_fields(1) .
  then show "dc_restoreAt (evaluateUpstreamQuotaGuard ob prev percent now) = None"
    and "now + GuardMinInterval \<le> dc_nextCheckAt (evaluateUpstreamQuotaGuard ob prev percent now)"
    and "dc_nextCheckAt (evaluateUpstreamQuotaGuard ob prev percent now) \<le> now + GuardMaxInterval"
    using next_interval_bounds by (simp_all add: evaluateUpstreamQuotaGuard_def Let_def)
qed

lemma evaluate_restore:
  assumes "dc_limited (evaluateUpstreamQuotaGuard ob prev percent now)"
  obtains restore where "dc_restoreAt (evaluateUpstreamQuotaGuard ob prev percent now) = Some restore"
    and "dc_nextCheckAt (evaluateUpstreamQuotaGuard ob prev percent now) = restore"
    and "restore > now"
    and "\<forall>w \<in> {ob_FiveHour ob, ob_SevenDay ob}. \<forall>r. tripped_reset percent now w = Some r \<longrightarrow>
           r + GuardRestoreDelay \<le> restore"
    and "\<forall>w \<in> {ob_FiveHour ob, ob_SevenDay ob}. window_reset_unknown percent now w \<longrightarrow>
           now + GuardUnknownResetHold \<le> restore"
proof -
  let ?s = "scan_windows ob prev percent now" and ?hold = "now + GuardUnknownResetHold"
  have lim: "sc_limited ?s" using assms unfolding evaluate_limited scan_windows_fields(1) .
  define restore where "restore = (case sc_resetAt ?s of None \<Rightarrow> ?hold
    | Some r \<Rightarrow> if \<not> sc_unknownReset ?s \<or> r + GuardRestoreDelay > ?hold then r + GuardRestoreDelay else ?hold)"
  let ?a = "tripped_reset percent now (ob_FiveHour ob)" and ?b = "tripped_reset percent now (ob_SevenDay ob)"
  have after: "restore > now"
    using tripped_reset_future [of percent now "ob_FiveHour ob"] tripped_reset_future [of percent now "ob_SevenDay ob"]
    unfolding restore_def scan_windows_fields(3) by (cases ?a; cases ?b) (auto simp: max_def)
  have resets: "r + GuardRestoreDelay \<le> restore" if "?a = Some r \<or> ?b = Some r" for r
    using that unfolding restore_def scan_windows_fields(3) by (cases ?a; cases ?b) (auto simp: max_def)
  have holds: "?hold \<le> restore" if "sc_unknownReset ?s"
    using that unfolding restore_def by (auto split: option.splits)
  show ?thesis
  proof
    show "dc_restoreAt (evaluateUpstreamQuotaGuard ob prev percent now) = Some restore"
      "dc_nextCheckAt (evaluateUpstreamQuotaGuard ob prev percent now) = restore"
      unfolding evaluateUpstreamQuotaGuard_def Let_def restore_def
      by (simp_all only: lim if_True upstreamQuotaGuardDecision.simps)
    show "restore > now" by (rule after)
    show "\<forall>w \<in> {ob_FiveHour ob, ob_SevenDay ob}. \<forall>r. tripped_reset percent now w = Some r \<longrightarrow>
        r + GuardRestoreDelay \<le> restore"
      using resets by auto
    show "\<forall>w \<in> {ob_FiveHour ob, ob_SevenDay ob}. window_reset_unknown percent now w \<longrightarrow>
        now + GuardUnknownResetHold \<le> restore"
      using holds unfolding scan_windows_fields(2) by auto
  qed
qed

section \<open>The stored rows\<close>

definition guard_inv :: "guard_db \<Rightarrow> bool" where
  "guard_inv db =
     (keys_unique gr_accountID (guards db) \<and> (\<forall>r \<in> set (guards db). guard_row_check r)
      \<and> (\<forall>r \<in> set (guards db). gr_accountID r \<in> fst ` set (accounts db))
      \<and> 0 \<le> SafetyPercent (guard_settings db) \<and> SafetyPercent (guard_settings db) \<le> MaxUpstreamQuotaGuardPercent
      \<and> 0 < Revision (guard_settings db) \<and> Revision (guard_settings db) < 2 ^ 63)"

text \<open>The states an owner or the rule writes satisfy the constraints of the table.\<close>

definition decision_ok :: "upstreamQuotaGuardDecision \<Rightarrow> bool" where
  "decision_ok d =
     ((if dc_limited d then dc_window d \<in> {WindowFiveHour, WindowSevenDay}
       else dc_resetAt d = None \<and> dc_restoreAt d = None)
      \<and> (case (dc_resetAt d, dc_restoreAt d) of (Some a, Some b) \<Rightarrow> b > a | _ \<Rightarrow> True))"

lemma later_of_cases: "later_of a b = Some r \<Longrightarrow> a = Some r \<or> b = Some r"
  by (cases a; cases b) (auto simp: max_def split: if_splits)

lemma evaluate_decision_ok: "decision_ok (evaluateUpstreamQuotaGuard ob prev percent now)"
proof (cases "dc_limited (evaluateUpstreamQuotaGuard ob prev percent now)")
  case False
  show ?thesis using False evaluate_open(1,2) [OF False] by (simp add: decision_ok_def)
next
  case True
  let ?d = "evaluateUpstreamQuotaGuard ob prev percent now"
  obtain restore where r: "dc_restoreAt ?d = Some restore"
    and le: "\<forall>w \<in> {ob_FiveHour ob, ob_SevenDay ob}. \<forall>t. tripped_reset percent now w = Some t \<longrightarrow>
        t + GuardRestoreDelay \<le> restore"
    by (rule evaluate_restore [OF True])
  have "t < restore" if t: "dc_resetAt ?d = Some t" for t
  proof -
    have "t + GuardRestoreDelay \<le> restore"
      using later_of_cases [OF t [unfolded evaluate_reset]] le by blast
    then show ?thesis by simp
  qed
  then show ?thesis using True evaluate_window [OF True] r by (simp add: decision_ok_def split: option.splits)
qed

lemma check_snapshot: "guard_row_check r \<Longrightarrow> validUpstreamQuotaObservation ob \<Longrightarrow> guard_row_check (record_snapshot ob r)"
  by (simp add: guard_row_check_def record_snapshot_def validUpstreamQuotaObservation_def)

lemma check_decision: "guard_row_check r \<Longrightarrow> decision_ok d \<Longrightarrow> guard_row_check (apply_decision d changedAt r)"
  by (auto simp: guard_row_check_def apply_decision_def decision_ok_def split: if_splits option.splits)

lemma check_source: "guard_row_check r \<Longrightarrow> guard_row_check (r\<lparr>gr_source := SourceAuto, gr_nextCheckAt := n\<rparr>)"
  "guard_row_check r \<Longrightarrow> guard_row_check (r\<lparr>gr_nextCheckAt := n\<rparr>)"
  "guard_row_check r \<Longrightarrow> guard_row_check (r\<lparr>gr_autoCheckedAt := c\<rparr>)"
  by (simp_all add: guard_row_check_def)

lemma soonest_name: "soonestUpstreamQuotaReset row now = Some (name, t) \<Longrightarrow> name \<in> {WindowFiveHour, WindowSevenDay}"
  by (auto simp: soonestUpstreamQuotaReset_def split: option.splits if_splits)

lemma check_manual: "guard_row_check r \<Longrightarrow> guard_row_check (set_manually limited stamp current r)"
  using soonest_name [of current stamp]
  by (cases "soonestUpstreamQuotaReset current stamp") (auto simp: guard_row_check_def set_manually_def Let_def)

lemma check_reapply: "guard_row_check r \<Longrightarrow> guard_row_check (reapply_row percent stamp r)"
  unfolding reapply_row_def Let_def
  by (cases "guard_snapshot r") (simp_all add: check_source(2) check_decision evaluate_decision_ok)

lemma check_blank: "guard_row_check (blank_row account)"
  by (simp add: guard_row_check_def blank_row_def window_in_range_def)

lemma keeps_account [simp]:
  "gr_accountID (record_snapshot ob r) = gr_accountID r" "gr_accountID (apply_decision d c r) = gr_accountID r"
  "gr_accountID (set_manually l t cur r) = gr_accountID r" "gr_accountID (reapply_row p t r) = gr_accountID r"
  "gr_accountID (blank_row account) = account"
  by (simp_all add: record_snapshot_def apply_decision_def set_manually_def reapply_row_def blank_row_def Let_def
      split: option.splits)

lemma keeps_autoChecked [simp]:
  "gr_autoCheckedAt (record_snapshot ob r) = gr_autoCheckedAt r"
  "gr_autoCheckedAt (apply_decision d c r) = gr_autoCheckedAt r"
  "gr_autoCheckedAt (set_manually l t cur r) = gr_autoCheckedAt r"
  "gr_autoCheckedAt (reapply_row p t r) = gr_autoCheckedAt r"
  "gr_autoCheckedAt (blank_row account) = None"
  by (simp_all add: record_snapshot_def apply_decision_def set_manually_def reapply_row_def blank_row_def Let_def
      split: option.splits)

subsection \<open>Statements of the operations\<close>

lemma update_guard_ok:
  assumes "guard_inv db" and "\<And>r. gr_accountID (f r) = gr_accountID r"
    and "\<And>r. guard_row_check r \<Longrightarrow> guard_row_check (f r)"
  shows "update_guard db account f = Inr (db\<lparr>guards := row_update gr_accountID account f (guards db)\<rparr>)"
proof -
  have "\<not> (\<exists>r \<in> set (guards db). gr_accountID r = account \<and> \<not> guard_row_check (f r))"
    using assms(1,3) by (auto simp: guard_inv_def)
  then show ?thesis by (simp add: update_guard_def sql_update_def row_update_def)
qed

lemma row_update_inv:
  assumes inv: "guard_inv db" and key: "\<And>r. gr_accountID (f r) = gr_accountID r"
    and ok: "\<And>r. guard_row_check r \<Longrightarrow> guard_row_check (f r)"
  shows "guard_inv (db\<lparr>guards := row_update gr_accountID account f (guards db)\<rparr>)"
proof -
  have "keys_unique gr_accountID (row_update gr_accountID account f (guards db))"
    by (rule rows.update_unique) (use inv key in \<open>simp_all add: guard_inv_def\<close>)
  then show ?thesis using inv ok by (auto simp: guard_inv_def row_update_def key)
qed

lemma lock_row:
  assumes "lockUpstreamQuotaGuardRowTx db account provider = Inr (row, db1)"
  shows "db1 = db\<lparr>guards := sql_insert_ignore gr_accountID (blank_row account) (guards db)\<rparr>"
    and "row_lookup gr_accountID account (guards db1) = Some row"
    and "account_provider db account = Some provider"
  using assms by (auto simp: lockUpstreamQuotaGuardRowTx_def Let_def split: if_splits option.splits)

lemma lock_inv:
  assumes "guard_inv db" and "lockUpstreamQuotaGuardRowTx db account provider = Inr (row, db1)"
  shows "guard_inv db1"
proof -
  have "account \<in> fst ` set (accounts db)"
    using lock_row(3) [OF assms(2)] by (auto simp: account_provider_def intro: map_of_SomeD rev_image_eqI)
  moreover have "keys_unique gr_accountID (sql_insert_ignore gr_accountID (blank_row account) (guards db))"
    by (rule rows.insert_unique) (use assms(1) in \<open>simp add: guard_inv_def\<close>)
  ultimately show ?thesis using assms(1) check_blank
    unfolding lock_row(1) [OF assms(2)] by (auto simp: guard_inv_def sql_insert_ignore_def)
qed

text \<open>The time of the last claim of an account.\<close>

definition last_claim :: "guard_db \<Rightarrow> string \<Rightarrow> timestamp option" where
  "last_claim db account = Option.bind (row_lookup gr_accountID account (guards db)) gr_autoCheckedAt"

lemma last_claim_update:
  assumes "\<And>r. gr_accountID (f r) = gr_accountID r" and "\<And>r. gr_autoCheckedAt (f r) = gr_autoCheckedAt r"
  shows "last_claim (db\<lparr>guards := row_update gr_accountID k f (guards db)\<rparr>) account = last_claim db account"
  using assms
  by (cases "row_lookup gr_accountID k (guards db)") (simp_all add: last_claim_def rows.lookup_update)

lemma last_claim_lock:
  assumes "lockUpstreamQuotaGuardRowTx db k provider = Inr (row, db1)"
  shows "last_claim db1 account = last_claim db account"
  unfolding lock_row(1) [OF assms]
  by (cases "row_lookup gr_accountID account (guards db)") (auto simp: last_claim_def rows.lookup_insert)

lemma append_event_frame:
  assumes "append_event refs db stamp actor ev st sub md = Inr db'"
  obtains es where "db' = db\<lparr>audit_events := es\<rparr>"
  using assms unfolding append_event_def by (auto simp: andThen_Inr)

lemma frame_audit [simp]:
  "guard_inv (db\<lparr>audit_events := es\<rparr>) = guard_inv db" "last_claim (db\<lparr>audit_events := es\<rparr>) a = last_claim db a"
  by (simp_all add: guard_inv_def last_claim_def)

subsection \<open>What each operation does to the rows\<close>

definition observed_row ::
  "int \<Rightarrow> UpstreamQuotaObservation \<Rightarrow> upstreamQuotaGuardRow \<Rightarrow> timestamp \<Rightarrow> upstreamQuotaGuardRow \<Rightarrow> upstreamQuotaGuardRow" where
  "observed_row percent ob current stamp r =
     (let d = evaluateUpstreamQuotaGuard ob (guard_snapshot current) percent stamp in
      (record_snapshot ob (apply_decision d
         (if limitedAt current stamp \<noteq> dc_limited d \<or> gr_source current \<noteq> SourceAuto then Some stamp
          else gr_changedAt current) r))
        \<lparr>gr_source := SourceAuto, gr_nextCheckAt := Some (dc_nextCheckAt d)\<rparr>)"

lemma observed_row_facts:
  "gr_accountID (observed_row percent ob current stamp r) = gr_accountID r"
  "gr_autoCheckedAt (observed_row percent ob current stamp r) = gr_autoCheckedAt r"
  "guard_row_check r \<Longrightarrow> validUpstreamQuotaObservation ob \<Longrightarrow> guard_row_check (observed_row percent ob current stamp r)"
  unfolding observed_row_def Let_def
  by (simp_all add: check_source(1) check_snapshot check_decision evaluate_decision_ok)

text \<open>A reading either only replaces the snapshot of the row or applies the rule to it.\<close>

lemma record_effect:
  assumes inv: "guard_inv db" and ok: "validUpstreamQuotaObservation ob"
    and run: "recordUpstreamQuotaObservationTx refs provider ob account automatic stamp db = Inr (st, db')"
  obtains current db1 es where "lockUpstreamQuotaGuardRowTx db account provider = Inr (current, db1)"
    and "db' = db1\<lparr>guards := row_update gr_accountID account
           (if \<not> automatic \<and> gr_source current = SourceManual then record_snapshot ob
            else observed_row (SafetyPercent (guard_settings db)) ob current stamp) (guards db1), audit_events := es\<rparr>"
    and "read_guard_state db' account stamp = Inr st"
proof -
  let ?percent = "SafetyPercent (guard_settings db)"
  obtain current db1 where lock: "lockUpstreamQuotaGuardRowTx db account provider = Inr (current, db1)"
    and rest: "andThen (if \<not> automatic \<and> gr_source current = SourceManual then update_guard db1 account (record_snapshot ob)
        else apply_observation refs db1 account ob automatic current stamp)
      (\<lambda>db2. andThen (read_guard_state db2 account stamp) (\<lambda>s. Inr (s, db2))) = Inr (st, db')"
    using run unfolding recordUpstreamQuotaObservationTx_def by (elim andThen_InrE) (simp split: prod.splits)
  have inv1: "guard_inv db1" using lock_inv [OF inv lock] .
  have percent: "SafetyPercent (guard_settings db1) = ?percent" unfolding lock_row(1) [OF lock] by simp
  from rest have read: "read_guard_state db' account stamp = Inr st"
    and upd: "(if \<not> automatic \<and> gr_source current = SourceManual then update_guard db1 account (record_snapshot ob)
        else apply_observation refs db1 account ob automatic current stamp) = Inr db'"
    by (auto simp: andThen_Inr)
  show ?thesis
  proof (cases "\<not> automatic \<and> gr_source current = SourceManual")
    case True
    have "update_guard db1 account (record_snapshot ob) =
        Inr (db1\<lparr>guards := row_update gr_accountID account (record_snapshot ob) (guards db1)\<rparr>)"
      by (rule update_guard_ok [OF inv1]) (simp_all add: check_snapshot ok)
    then have e: "db' = db1\<lparr>guards := row_update gr_accountID account (record_snapshot ob) (guards db1)\<rparr>"
      using upd True by simp
    show ?thesis
      by (rule that [OF lock _ read, of "audit_events db1"]) (use True e in \<open>simp\<close>)
  next
    case False
    let ?db2 = "db1\<lparr>guards := row_update gr_accountID account (observed_row ?percent ob current stamp) (guards db1)\<rparr>"
    have u: "update_guard db1 account (observed_row ?percent ob current stamp) = Inr ?db2"
      by (rule update_guard_ok [OF inv1]) (simp_all add: observed_row_facts ok)
    have "\<exists>es. db' = ?db2\<lparr>audit_events := es\<rparr>"
    proof -
      have "apply_observation refs db1 account ob automatic current stamp = Inr db'" using upd False by simp
      then have "db' = ?db2 \<or> (\<exists>ac ev sub md. append_event refs ?db2 stamp ac ev ''upstream_account'' sub md = Inr db')"
        using u unfolding apply_observation_def observed_row_def Let_def percent appendUpstreamQuotaGuardAuditTx_def
        by (auto split: if_splits)
      then show ?thesis
      proof
        assume "db' = ?db2"
        then have "db' = ?db2\<lparr>audit_events := audit_events db1\<rparr>" by simp
        then show ?thesis ..
      next
        assume "\<exists>ac ev sub md. append_event refs ?db2 stamp ac ev ''upstream_account'' sub md = Inr db'"
        then show ?thesis using append_event_frame by metis
      qed
    qed
    then show ?thesis using that [OF lock _ read] False by auto
  qed
qed

lemma status_effect:
  assumes inv: "guard_inv db"
    and run: "setUpstreamQuotaGuardStatusTx refs provider account limited actor stamp db = Inr (st, db')"
  obtains current db1 es where "lockUpstreamQuotaGuardRowTx db account provider = Inr (current, db1)"
    and "db' = (if limitedAt current stamp = limited then db1
           else db1\<lparr>guards := row_update gr_accountID account (set_manually limited stamp current) (guards db1),
                    audit_events := es\<rparr>)"
proof -
  obtain current db1 where lock: "lockUpstreamQuotaGuardRowTx db account provider = Inr (current, db1)"
    and rest: "(if limitedAt current stamp = limited then Inr (guard_state current stamp, db1)
       else andThen (update_guard db1 account (set_manually limited stamp current))
         (\<lambda>db2. andThen (appendUpstreamQuotaGuardAuditTx refs db2 stamp actor ''upstream_quota_guard.manual_set'' account
              (manual_metadata limited stamp current))
            (\<lambda>db3. andThen (read_guard_state db3 account stamp) (\<lambda>s. Inr (s, db3))))) = Inr (st, db')"
    using run unfolding setUpstreamQuotaGuardStatusTx_def by (elim andThen_InrE) (simp split: prod.splits)
  show ?thesis
  proof (cases "limitedAt current stamp = limited")
    case True
    then show ?thesis using that [OF lock] rest by simp
  next
    case False
    let ?db2 = "db1\<lparr>guards := row_update gr_accountID account (set_manually limited stamp current) (guards db1)\<rparr>"
    have "update_guard db1 account (set_manually limited stamp current) = Inr ?db2"
      by (rule update_guard_ok [OF lock_inv [OF inv lock]]) (simp_all add: check_manual)
    then obtain ev md where "append_event refs ?db2 stamp actor ev ''upstream_account'' account md = Inr db'"
      using rest False unfolding appendUpstreamQuotaGuardAuditTx_def by (auto simp: andThen_Inr)
    then obtain es where "db' = ?db2\<lparr>audit_events := es\<rparr>" by (rule append_event_frame)
    then show ?thesis using that [OF lock] False by simp
  qed
qed

lemma settings_effect:
  assumes inv: "guard_inv db"
    and run: "setUpstreamQuotaGuardSettingsTx refs percent actor stamp db = Inr (settings, db')"
  obtains es where "db' = db\<lparr>guard_settings := settings,
        guards := map (\<lambda>r. if reapplied r then reapply_row percent stamp r else r) (guards db), audit_events := es\<rparr>"
    and "settings = \<lparr>SafetyPercent = percent, Revision = Revision (guard_settings db) + 1, UpdatedAt = stamp\<rparr>"
    and "Revision (guard_settings db) + 1 < 2 ^ 63"
proof -
  let ?s = "\<lparr>SafetyPercent = percent, Revision = Revision (guard_settings db) + 1, UpdatedAt = stamp\<rparr>"
  let ?gs = "map (\<lambda>r. if reapplied r then reapply_row percent stamp r else r) (guards db)"
  have rev: "Revision (guard_settings db) + 1 < 2 ^ 63"
    using run unfolding setUpstreamQuotaGuardSettingsTx_def Let_def andThen_guard by (simp split: if_splits)
  have "\<not> (\<exists>r \<in> set (guards db). reapplied r \<and> \<not> guard_row_check (reapply_row percent stamp r))"
    using inv check_reapply by (auto simp: guard_inv_def)
  then have "sql_update guard_row_check reapplied (reapply_row percent stamp) (guards db) =
      Inr (?gs, length (filter reapplied (guards db)))" by (simp add: sql_update_def)
  then obtain md where "settings = ?s"
    and e: "append_event refs (db\<lparr>guard_settings := ?s, guards := ?gs\<rparr>) stamp actor
      ''upstream_quota_guard.settings_updated'' ''upstream_quota_guard_settings'' ''global'' md = Inr db'"
    using run rev unfolding setUpstreamQuotaGuardSettingsTx_def Let_def andThen_guard by (auto simp: andThen_Inr)
  from e obtain es where "db' = db\<lparr>guard_settings := ?s, guards := ?gs\<rparr>\<lparr>audit_events := es\<rparr>" by (rule append_event_frame)
  then show ?thesis using that [of es] \<open>settings = ?s\<close> rev by simp
qed

lemma reapply_keys [simp]:
  "gr_accountID \<circ> (\<lambda>r. if reapplied r then reapply_row percent stamp r else r) = gr_accountID"
  by (rule ext) simp

lemma reapply_inv:
  assumes "guard_inv db" and "0 \<le> percent" and "percent \<le> MaxUpstreamQuotaGuardPercent" and "Revision (guard_settings db) + 1 < 2 ^ 63"
  shows "guard_inv (db\<lparr>guard_settings := \<lparr>SafetyPercent = percent, Revision = Revision (guard_settings db) + 1, UpdatedAt = t\<rparr>,
      guards := map (\<lambda>r. if reapplied r then reapply_row percent stamp r else r) (guards db), audit_events := es\<rparr>)"
  using assms check_reapply unfolding guard_inv_def keys_unique_def by auto

lemma last_claim_reapply:
  "last_claim (db\<lparr>guard_settings := st, guards := map (\<lambda>r. if reapplied r then reapply_row percent stamp r else r) (guards db),
     audit_events := es\<rparr>) account = last_claim db account"
proof -
  have "Option.bind (find (\<lambda>r. gr_accountID r = account)
      (map (\<lambda>r. if reapplied r then reapply_row percent stamp r else r) rows)) gr_autoCheckedAt =
    Option.bind (find (\<lambda>r. gr_accountID r = account) rows) gr_autoCheckedAt" for rows
    by (induction rows) simp_all
  then show ?thesis by (simp add: last_claim_def row_lookup_def)
qed

section \<open>Runs of operations\<close>

text \<open>
  The operations in any order, each with the time it is given and the clock of the store. They come from
  several instances of the gateway; row locks make each of them one step.
\<close>

datatype guard_op =
    OpClaim string timestamp timestamp
  | OpRecord string string UpstreamQuotaObservation bool timestamp timestamp
  | OpStatus string string bool guard_actor timestamp timestamp
  | OpSettings int guard_actor timestamp timestamp

fun guard_step :: "audit_refs \<Rightarrow> guard_db \<Rightarrow> guard_op \<Rightarrow> guard_db" where
  "guard_step refs db (OpClaim account at0 now) = snd (ClaimUpstreamQuotaCheck db account at0 now)"
| "guard_step refs db (OpRecord provider account ob automatic at0 now) =
     snd (RecordUpstreamQuotaObservation refs db provider account ob automatic at0 now)"
| "guard_step refs db (OpStatus provider account limited actor at0 now) =
     snd (SetUpstreamQuotaGuardStatus refs db provider account limited actor at0 now)"
| "guard_step refs db (OpSettings percent actor at0 now) =
     snd (SetUpstreamQuotaGuardSettings refs db percent actor at0 now)"

fun claim_made :: "guard_db \<Rightarrow> string \<Rightarrow> guard_op \<Rightarrow> timestamp list" where
  "claim_made db account (OpClaim a at0 now) =
     (case fst (ClaimUpstreamQuotaCheck db a at0 now) of
        Inl e \<Rightarrow> []
      | Inr claim \<Rightarrow> if a = account \<and> cl_Claimed claim then [normalizedGuardTime at0 now] else [])"
| "claim_made db account op = []"

text \<open>The times at which an account's automatic check was claimed during a run.\<close>

fun claim_times :: "audit_refs \<Rightarrow> string \<Rightarrow> guard_op list \<Rightarrow> guard_db \<Rightarrow> timestamp list" where
  "claim_times refs account [] db = []"
| "claim_times refs account (op # ops) db =
     claim_made db account op @ claim_times refs account ops (guard_step refs db op)"

lemma withTx_snd: "snd (withTx body s) = (case body s of Inl e \<Rightarrow> s | Inr (x, s') \<Rightarrow> s')"
  by (simp add: withTx_def split: sum.splits prod.splits)

lemma valid_observedAt [simp]:
  "validUpstreamQuotaObservation (ob\<lparr>ob_ObservedAt := t\<rparr>) = validUpstreamQuotaObservation ob"
  by (simp add: validUpstreamQuotaObservation_def)

lemma record_keeps:
  assumes "guard_inv db"
  shows "guard_inv (snd (RecordUpstreamQuotaObservation refs db provider account ob automatic at0 now))"
    and "last_claim (snd (RecordUpstreamQuotaObservation refs db provider account ob automatic at0 now)) k = last_claim db k"
proof -
  let ?db = "snd (RecordUpstreamQuotaObservation refs db provider account ob automatic at0 now)"
  define ob' where "ob' = (if ob_ObservedAt ob = 0 then ob\<lparr>ob_ObservedAt := normalizedGuardTime at0 now\<rparr> else ob)"
  have "?db = db \<or> (validUpstreamQuotaObservation ob \<and> (\<exists>st. recordUpstreamQuotaObservationTx refs provider ob' account
      automatic (normalizedGuardTime at0 now) db = Inr (st, ?db)))"
    unfolding RecordUpstreamQuotaObservation_def Let_def ob'_def [symmetric] withTx_snd
    by (auto simp: withTx_def split: sum.splits)
  moreover have "guard_inv d \<and> last_claim d k = last_claim db k"
    if ok: "validUpstreamQuotaObservation ob'" and run: "recordUpstreamQuotaObservationTx refs provider ob' account
      automatic stamp db = Inr (st, d)" for st d stamp
  proof -
    obtain current db1 es where lock: "lockUpstreamQuotaGuardRowTx db account provider = Inr (current, db1)"
      and d0: "d = db1\<lparr>guards := row_update gr_accountID account
           (if \<not> automatic \<and> gr_source current = SourceManual then record_snapshot ob'
            else observed_row (SafetyPercent (guard_settings db)) ob' current stamp) (guards db1), audit_events := es\<rparr>"
      by (rule record_effect [OF assms ok run])
    define f where "f = (if \<not> automatic \<and> gr_source current = SourceManual then record_snapshot ob'
            else observed_row (SafetyPercent (guard_settings db)) ob' current stamp)"
    note d = d0 [folded f_def]
    have f': "gr_accountID (f r) = gr_accountID r" "gr_autoCheckedAt (f r) = gr_autoCheckedAt r"
      "guard_row_check r \<Longrightarrow> guard_row_check (f r)" for r
      using ok by (simp_all add: f_def observed_row_facts check_snapshot)
    have "d = (db1\<lparr>guards := row_update gr_accountID account f (guards db1)\<rparr>)\<lparr>audit_events := es\<rparr>" using d by simp
    then show ?thesis
      using row_update_inv [OF lock_inv [OF assms lock] f'(1,3)] last_claim_update [OF f'(1,2)] last_claim_lock [OF lock]
      by (simp only: frame_audit)
  qed
  moreover have "validUpstreamQuotaObservation ob' = validUpstreamQuotaObservation ob" by (simp add: ob'_def)
  ultimately show "guard_inv ?db" "last_claim ?db k = last_claim db k" using assms by metis+
qed

lemma status_keeps:
  assumes "guard_inv db"
  shows "guard_inv (snd (SetUpstreamQuotaGuardStatus refs db provider account limited actor at0 now))"
    and "last_claim (snd (SetUpstreamQuotaGuardStatus refs db provider account limited actor at0 now)) k = last_claim db k"
proof -
  let ?db = "snd (SetUpstreamQuotaGuardStatus refs db provider account limited actor at0 now)"
  have "?db = db \<or> (\<exists>st. setUpstreamQuotaGuardStatusTx refs provider account limited actor
      (normalizedGuardTime at0 now) db = Inr (st, ?db))"
    unfolding SetUpstreamQuotaGuardStatus_def by (auto simp: withTx_def split: sum.splits)
  moreover have "guard_inv d \<and> last_claim d k = last_claim db k"
    if run: "setUpstreamQuotaGuardStatusTx refs provider account limited actor stamp db = Inr (st, d)" for st d stamp
  proof -
    obtain current db1 es where lock: "lockUpstreamQuotaGuardRowTx db account provider = Inr (current, db1)"
      and d: "d = (if limitedAt current stamp = limited then db1
           else db1\<lparr>guards := row_update gr_accountID account (set_manually limited stamp current) (guards db1),
                    audit_events := es\<rparr>)"
      by (rule status_effect [OF assms run])
    let ?db2 = "db1\<lparr>guards := row_update gr_accountID account (set_manually limited stamp current) (guards db1)\<rparr>"
    have inv1: "guard_inv db1" using lock_inv [OF assms lock] .
    have "guard_inv ?db2" by (rule row_update_inv [OF inv1]) (simp_all add: check_manual)
    moreover have "last_claim ?db2 k = last_claim db1 k" by (rule last_claim_update) simp_all
    moreover have "d = db1 \<or> d = ?db2\<lparr>audit_events := es\<rparr>" using d by simp
    ultimately show ?thesis using inv1 last_claim_lock [OF lock] frame_audit by metis
  qed
  ultimately show "guard_inv ?db" "last_claim ?db k = last_claim db k" using assms by metis+
qed

lemma settings_keeps:
  assumes "guard_inv db"
  shows "guard_inv (snd (SetUpstreamQuotaGuardSettings refs db percent actor at0 now))"
    and "last_claim (snd (SetUpstreamQuotaGuardSettings refs db percent actor at0 now)) k = last_claim db k"
proof -
  let ?db = "snd (SetUpstreamQuotaGuardSettings refs db percent actor at0 now)"
  have "?db = db \<or> (0 \<le> percent \<and> percent \<le> MaxUpstreamQuotaGuardPercent \<and> (\<exists>st. setUpstreamQuotaGuardSettingsTx refs percent
      actor (normalizedGuardTime at0 now) db = Inr (st, ?db)))"
    unfolding SetUpstreamQuotaGuardSettings_def by (auto simp: withTx_def split: sum.splits)
  moreover have "guard_inv d \<and> last_claim d k = last_claim db k"
    if "0 \<le> percent" "percent \<le> MaxUpstreamQuotaGuardPercent"
      and run: "setUpstreamQuotaGuardSettingsTx refs percent actor stamp db = Inr (st, d)" for st d stamp
  proof -
    obtain es where d: "d = db\<lparr>guard_settings := st,
        guards := map (\<lambda>r. if reapplied r then reapply_row percent stamp r else r) (guards db), audit_events := es\<rparr>"
      and st: "st = \<lparr>SafetyPercent = percent, Revision = Revision (guard_settings db) + 1, UpdatedAt = stamp\<rparr>"
      and rev: "Revision (guard_settings db) + 1 < 2 ^ 63"
      by (rule settings_effect [OF assms run])
    show ?thesis
      using reapply_inv [OF assms that(1,2) rev] unfolding d last_claim_reapply unfolding st by (rule conjI) (rule refl)
  qed
  ultimately show "guard_inv ?db" "last_claim ?db k = last_claim db k" using assms by metis+
qed

text \<open>A claim writes its time into the row, and only when the last one is old enough.\<close>

lemma claim_effect:
  fixes at0 now :: timestamp
  assumes "guard_inv db"
  defines "stamp \<equiv> normalizedGuardTime at0 now"
  obtains "claim_made db account (OpClaim account at0 now) = []"
      and "snd (ClaimUpstreamQuotaCheck db account at0 now) = db"
  | "claim_made db account (OpClaim account at0 now) = [stamp]"
      and "guard_inv (snd (ClaimUpstreamQuotaCheck db account at0 now))"
      and "\<forall>c \<in> set_option (last_claim db account). c + GuardMinInterval \<le> stamp"
      and "\<And>k. last_claim (snd (ClaimUpstreamQuotaCheck db account at0 now)) k =
             (if k = account then Some stamp else last_claim db k)"
proof (cases "upstreamAccountIDPattern account \<and> (\<exists>p. account_provider db account = Some p \<and> guardedUpstreamProvider p)")
  case False
  then show ?thesis
    by (intro that(1)) (auto simp: ClaimUpstreamQuotaCheck_def Let_def split: option.splits)
next
  case True
  then obtain provider where pat: "upstreamAccountIDPattern account" and prov: "account_provider db account = Some provider"
    and g: "guardedUpstreamProvider provider" by blast
  have known: "account \<in> fst ` set (accounts db)"
    using prov by (auto simp: account_provider_def intro: map_of_SomeD rev_image_eqI)
  show ?thesis
  proof (cases "row_lookup gr_accountID account (guards db)")
    case None
    let ?db = "db\<lparr>guards := guards db @ [(blank_row account)\<lparr>gr_autoCheckedAt := Some stamp\<rparr>]\<rparr>"
    have new: "account \<notin> gr_accountID ` set (guards db)" using None by (simp add: row_lookup_None)
    have run: "ClaimUpstreamQuotaCheck db account at0 now =
        (Inr \<lparr>cl_Provider = provider, cl_Claimed = True, cl_NextCheckAt = 0\<rparr>, ?db)"
      by (simp add: ClaimUpstreamQuotaCheck_def pat prov g None stamp_def)
    have "guard_inv ?db"
      using assms(1) new known check_source(3) [OF check_blank] by (auto simp: guard_inv_def keys_unique_def)
    moreover have "last_claim ?db k = (if k = account then Some stamp else last_claim db k)" for k
      using None by (cases "row_lookup gr_accountID k (guards db)") (auto simp: last_claim_def row_lookup_append)
    moreover have "last_claim db account = None" using None by (simp add: last_claim_def)
    ultimately show ?thesis using run by (intro that(2)) (simp_all add: stamp_def)
  next
    case (Some row)
    let ?f = "\<lambda>r. r\<lparr>gr_autoCheckedAt := Some stamp\<rparr>"
    let ?db = "db\<lparr>guards := row_update gr_accountID account ?f (guards db)\<rparr>"
    let ?due = "(\<forall>n \<in> set_option (gr_nextCheckAt row). n \<le> stamp)
      \<and> (\<forall>c \<in> set_option (gr_autoCheckedAt row). c \<le> stamp - GuardMinInterval)"
    show ?thesis
    proof (cases ?due)
      case False
      then show ?thesis
        by (intro that(1)) (auto simp: ClaimUpstreamQuotaCheck_def pat prov g Some stamp_def [symmetric] Let_def)
    next
      case due: True
      have run: "ClaimUpstreamQuotaCheck db account at0 now =
          (Inr \<lparr>cl_Provider = provider, cl_Claimed = True, cl_NextCheckAt = 0\<rparr>, ?db)"
        unfolding ClaimUpstreamQuotaCheck_def Let_def stamp_def [symmetric] using due by (simp add: pat prov g Some)
      have "guard_inv ?db" by (rule row_update_inv [OF assms(1)]) (simp_all add: check_source(3))
      moreover have "last_claim ?db k = (if k = account then Some stamp else last_claim db k)" for k
        using Some by (simp add: last_claim_def rows.lookup_update)
      moreover have "\<forall>c \<in> set_option (last_claim db account). c + GuardMinInterval \<le> stamp"
        using due Some by (auto simp: last_claim_def)
      ultimately show ?thesis using run by (intro that(2)) (simp_all add: stamp_def)
    qed
  qed
qed

lemma guard_step_inv: "guard_inv db \<Longrightarrow> guard_inv (guard_step refs db op)"
proof (cases op)
  case (OpClaim account at0 now)
  assume "guard_inv db"
  then show ?thesis by (rule claim_effect [of db account at0 now]) (simp_all add: OpClaim \<open>guard_inv db\<close>)
qed (simp_all add: record_keeps(1) status_keeps(1) settings_keeps(1))

lemma claim_made_other: "a \<noteq> account \<Longrightarrow> claim_made db account (OpClaim a at0 now) = []"
  by (simp split: sum.splits)

lemma claim_step:
  assumes "guard_inv db"
  obtains "claim_made db account op = []" and "last_claim (guard_step refs db op) account = last_claim db account"
  | t where "claim_made db account op = [t]" and "last_claim (guard_step refs db op) account = Some t"
      and "\<forall>c \<in> set_option (last_claim db account). c + GuardMinInterval \<le> t"
proof (cases op)
  case (OpClaim a at0 now)
  show ?thesis
  proof (cases "a = account")
    case True
    show ?thesis
      by (rule claim_effect [OF assms, of account at0 now])
        (use True OpClaim in \<open>auto intro: that simp del: claim_made.simps\<close>)
  next
    case False
    have "last_claim (guard_step refs db op) account = last_claim db account"
      by (rule claim_effect [OF assms, of a at0 now]) (use False OpClaim in \<open>simp_all del: claim_made.simps\<close>)
    then show ?thesis using that(1) claim_made_other [OF False] OpClaim by simp
  qed
qed (use that(1) in \<open>simp_all add: record_keeps(2) status_keeps(2) settings_keeps(2) assms\<close>)

lemma claim_times_spaced:
  "guard_inv db \<Longrightarrow>
     sorted_wrt (\<lambda>s t. s + GuardMinInterval \<le> t) (claim_times refs account ops db)
     \<and> (\<forall>c \<in> set_option (last_claim db account). \<forall>t \<in> set (claim_times refs account ops db). c + GuardMinInterval \<le> t)"
proof (induction ops arbitrary: db)
  case (Cons op ops)
  let ?db = "guard_step refs db op"
  have IH: "sorted_wrt (\<lambda>s t. s + GuardMinInterval \<le> t) (claim_times refs account ops ?db)"
    "\<forall>c \<in> set_option (last_claim ?db account). \<forall>t \<in> set (claim_times refs account ops ?db). c + GuardMinInterval \<le> t"
    using Cons.IH [OF guard_step_inv [OF Cons.prems]] by blast+
  show ?case
  proof (rule claim_step [OF Cons.prems, of account op refs])
    assume "claim_made db account op = []" "last_claim ?db account = last_claim db account"
    then show ?thesis using IH by simp
  next
    fix t assume made: "claim_made db account op = [t]" and last: "last_claim ?db account = Some t"
      and old: "\<forall>c \<in> set_option (last_claim db account). c + GuardMinInterval \<le> t"
    have "\<forall>u \<in> set (claim_times refs account ops ?db). t + GuardMinInterval \<le> u" using IH(2) last by simp
    then show ?thesis using IH(1) made old by fastforce
  qed
qed simp

lemma held_iff:
  assumes "keys_unique gr_accountID (guards db)"
  shows "upstreamQuotaGuardHeld db account t =
    (case row_lookup gr_accountID account (guards db) of None \<Rightarrow> False | Some r \<Rightarrow> limitedAt r t)"
proof (cases "row_lookup gr_accountID account (guards db)")
  case None
  moreover have "account \<notin> gr_accountID ` set (guards db)" using None by (simp add: row_lookup_None)
  ultimately show ?thesis by (auto simp: upstreamQuotaGuardHeld_def)
next
  case (Some r)
  have "q = r" if "q \<in> set (guards db)" "gr_accountID q = account" for q
    using row_lookup_unique [OF assms that(1)] that(2) Some by simp
  then show ?thesis using Some row_lookup_Some [OF Some] unfolding upstreamQuotaGuardHeld_def limitedAt_def by auto
qed


lemma limitedAt_reapplied:
  assumes "reapplied r"
  shows "limitedAt (reapply_row percent stamp r) stamp =
    (window_tripped percent stamp (gr_fiveHour r) \<or> window_tripped percent stamp (gr_sevenDay r))"
proof -
  obtain ob where ob: "guard_snapshot r = Some ob" "ob_FiveHour ob = gr_fiveHour r" "ob_SevenDay ob = gr_sevenDay r"
    using assms by (auto simp: reapplied_def guard_snapshot_def)
  let ?d = "evaluateUpstreamQuotaGuard ob None percent stamp"
  have "limitedAt (reapply_row percent stamp r) stamp =
      (dc_limited ?d \<and> (case dc_restoreAt ?d of None \<Rightarrow> True | Some x \<Rightarrow> x > stamp))"
    by (simp add: reapply_row_def ob(1) Let_def limitedAt_def apply_decision_def)
  moreover have "case dc_restoreAt ?d of None \<Rightarrow> True | Some x \<Rightarrow> x > stamp" if "dc_limited ?d"
    by (rule evaluate_restore [OF that]) (simp only: option.case)
  ultimately show ?thesis using evaluate_limited [of ob None percent stamp] unfolding ob(2,3) by argo
qed

lemma record_run:
  assumes inv: "guard_inv db"
    and run: "RecordUpstreamQuotaObservation refs db provider account ob automatic at0 now = (Inr st, db')"
    and seen: "ob_ObservedAt ob \<noteq> 0"
  obtains current db1 es where "lockUpstreamQuotaGuardRowTx db account provider = Inr (current, db1)"
    and "db' = db1\<lparr>guards := row_update gr_accountID account
           (if \<not> automatic \<and> gr_source current = SourceManual then record_snapshot ob
            else observed_row (SafetyPercent (guard_settings db)) ob current (normalizedGuardTime at0 now)) (guards db1),
           audit_events := es\<rparr>"
    and "guard_inv db'"
proof -
  have ok: "validUpstreamQuotaObservation ob"
    and tx: "recordUpstreamQuotaObservationTx refs provider ob account automatic (normalizedGuardTime at0 now) db = Inr (st, db')"
    using run seen unfolding RecordUpstreamQuotaObservation_def by (auto simp: withTx_ok split: if_splits)
  have inv': "guard_inv db'" using record_keeps(1) [OF inv, of refs provider account ob automatic at0 now] run by simp
  show ?thesis by (rule record_effect [OF inv ok tx]) (rule that [OF _ _ inv'])
qed

lemma held_after_update:
  assumes inv: "guard_inv db'" and lock: "lockUpstreamQuotaGuardRowTx db account provider = Inr (current, db1)"
    and uniq: "keys_unique gr_accountID (guards db)"
    and db': "db' = db1\<lparr>guards := row_update gr_accountID account f (guards db1), audit_events := es\<rparr>"
    and key: "\<And>r. gr_accountID (f r) = gr_accountID r"
  shows "upstreamQuotaGuardHeld db' k t =
    (if k = account then limitedAt (f current) t else upstreamQuotaGuardHeld db k t)"
proof -
  have "row_lookup gr_accountID k (guards db') =
      (if k = account then Some (f current) else row_lookup gr_accountID k (guards db))"
  proof (cases "k = account")
    case True
    then show ?thesis using lock_row(2) [OF lock] by (simp add: db' rows.lookup_update key)
  next
    case False
    have "row_lookup gr_accountID k (guards db1) = row_lookup gr_accountID k (guards db)"
      unfolding lock_row(1) [OF lock] using False by (simp add: rows.lookup_insert)
    then show ?thesis using False by (simp add: db' rows.lookup_update key)
  qed
  then show ?thesis using held_iff [of db' k t] held_iff [OF uniq, of k t] inv by (simp add: guard_inv_def)
qed

section \<open>Properties\<close>

text \<open>
  C22: The rule limits an account exactly when one of its two windows is current and has at most the safety
  percentage left. A limited account returns no earlier than five minutes after the reset of every tripped
  window, and no earlier than one hour from now when a tripped window has no known reset. An open
  account is checked again between ten and sixty minutes from now, whatever the earlier reading was.
\<close>

theorem evaluateUpstreamQuotaGuard_correct:
  "let d = evaluateUpstreamQuotaGuard ob prev percent now; ws = [ob_FiveHour ob, ob_SevenDay ob] in
     dc_limited d = list_ex (window_tripped percent now) ws
     \<and> (if dc_limited d
        then dc_restoreAt d = Some (dc_nextCheckAt d) \<and> now < dc_nextCheckAt d
          \<and> list_all (\<lambda>w. case tripped_reset percent now w of None \<Rightarrow> True
                       | Some r \<Rightarrow> r + 5 * minute \<le> dc_nextCheckAt d) ws
          \<and> list_all (\<lambda>w. if window_reset_unknown percent now w then now + hour \<le> dc_nextCheckAt d else True) ws
        else dc_restoreAt d = None \<and> now + 10 * minute \<le> dc_nextCheckAt d
          \<and> dc_nextCheckAt d \<le> now + 60 * minute)"
proof (cases "dc_limited (evaluateUpstreamQuotaGuard ob prev percent now)")
  case True
  let ?d = "evaluateUpstreamQuotaGuard ob prev percent now"
  obtain restore where r: "dc_restoreAt ?d = Some restore" "dc_nextCheckAt ?d = restore" "restore > now"
    and resets: "\<forall>w \<in> {ob_FiveHour ob, ob_SevenDay ob}. \<forall>r. tripped_reset percent now w = Some r \<longrightarrow>
           r + GuardRestoreDelay \<le> restore"
    and holds: "\<forall>w \<in> {ob_FiveHour ob, ob_SevenDay ob}. window_reset_unknown percent now w \<longrightarrow>
           now + GuardUnknownResetHold \<le> restore"
    by (rule evaluate_restore [OF True])
  have A: "dc_limited ?d = list_ex (window_tripped percent now) [ob_FiveHour ob, ob_SevenDay ob]"
    by (simp add: evaluate_limited)
  have resets': "case tripped_reset percent now w of None \<Rightarrow> True | Some r \<Rightarrow> r + 5 * minute \<le> restore"
    if "w \<in> {ob_FiveHour ob, ob_SevenDay ob}" for w
    using bspec [OF resets that] by (cases "tripped_reset percent now w") simp_all
  have holds': "if window_reset_unknown percent now w then now + hour \<le> restore else True"
    if "w \<in> {ob_FiveHour ob, ob_SevenDay ob}" for w
    using bspec [OF holds that] by simp
  have B: "list_all (\<lambda>w. case tripped_reset percent now w of None \<Rightarrow> True | Some r \<Rightarrow> r + 5 * minute \<le> restore)
      [ob_FiveHour ob, ob_SevenDay ob]"
    unfolding list_all_iff list.set by (rule ballI) (rule resets')
  have C: "list_all (\<lambda>w. if window_reset_unknown percent now w then now + hour \<le> restore else True)
      [ob_FiveHour ob, ob_SevenDay ob]"
    unfolding list_all_iff list.set by (rule ballI) (rule holds')
  show ?thesis unfolding Let_def if_P [OF True] r(1,2) by (intro conjI A B C r(3) refl)
next
  case False
  then show ?thesis using evaluate_open [OF False] evaluate_limited [of ob prev percent now] by (simp add: Let_def)
qed

definition example_account :: string where
  "example_account = ''0123456789abcdef''"

definition example_settings :: UpstreamQuotaGuardSettings where
  "example_settings = \<lparr>SafetyPercent = 5, Revision = 1, UpdatedAt = 1\<rparr>"

definition example_guard_db :: guard_db where
  "example_guard_db = \<lparr>accounts = [(example_account, ''codex'')], guards = [], guard_settings = example_settings,
     audit_events = []\<rparr>"

definition example_reading :: UpstreamQuotaObservation where
  "example_reading = \<lparr>ob_ObservedAt = 10, ob_FiveHour = Some \<lparr>UsedPercent = 97, win_ResetAt = Some 70\<rparr>, ob_SevenDay = None\<rparr>"

definition example_refs :: audit_refs where
  "example_refs = \<lparr>is_user = (\<lambda>u. u = ''owner''), is_session = (\<lambda>s u. False), is_inet = (\<lambda>a. False)\<rparr>"

definition example_owner :: guard_actor where
  "example_owner = \<lparr>ac_UserID = ''owner'', ac_SessionID = [], ac_SourceIP = [], ac_RequestID = []\<rparr>"

lemma example_guard_inv: "guard_inv example_guard_db"
  by (simp add: guard_inv_def example_guard_db_def example_settings_def keys_unique_def)



text \<open>
  C8: Automatic checks of one account are at least ten minutes apart: in every run of operations, at whatever
  times they come, any two claims granted for the account are ten minutes or more apart.
\<close>

theorem automatic_checks_spaced:
  assumes "guard_inv db"
  shows "sorted_wrt (\<lambda>s t. s + 10 * minute \<le> t) (claim_times refs account ops db)"
  using claim_times_spaced [OF assms, of refs account ops] by simp

theorem automatic_checks_spaced_witness:
  "sorted_wrt (\<lambda>s t. s + 10 * minute \<le> t)
     (claim_times example_refs example_account
       [OpClaim example_account 5 5, OpClaim example_account 6 6, OpClaim example_account (5 + 10 * minute) 7]
       example_guard_db)
   \<and> claim_times example_refs example_account
       [OpClaim example_account 5 5, OpClaim example_account 6 6, OpClaim example_account (5 + 10 * minute) 7]
       example_guard_db = [5, 5 + 10 * minute]"
proof
  show "claim_times example_refs example_account
       [OpClaim example_account 5 5, OpClaim example_account 6 6, OpClaim example_account (5 + 10 * minute) 7]
       example_guard_db = [5, 5 + 10 * minute]" by code_simp
qed (rule automatic_checks_spaced [OF example_guard_inv])






text \<open>
  C25: A state an owner set by hand survives every reading that is not an automatic check: the account is held at
  exactly the same times as before, and so is every other account.
\<close>

theorem manual_state_survives_readings:
  assumes "guard_inv db" and "ob_ObservedAt ob \<noteq> 0"
    and "RecordUpstreamQuotaObservation refs db provider account ob False at0 now = (Inr st, db')"
    and "row_lookup gr_accountID account (guards db) = Some row" and "gr_source row = ''manual''"
  shows "upstreamQuotaGuardHeld db' k t = upstreamQuotaGuardHeld db k t"
proof -
  obtain current db1 es where lock: "lockUpstreamQuotaGuardRowTx db account provider = Inr (current, db1)"
    and db': "db' = db1\<lparr>guards := row_update gr_accountID account
           (if \<not> False \<and> gr_source current = SourceManual then record_snapshot ob
            else observed_row (SafetyPercent (guard_settings db)) ob current (normalizedGuardTime at0 now)) (guards db1),
           audit_events := es\<rparr>"
    and inv': "guard_inv db'"
    by (rule record_run [OF assms(1,3,2)])
  have uniq: "keys_unique gr_accountID (guards db)" using assms(1) by (simp add: guard_inv_def)
  have row: "current = row"
    using lock_row(1,2) [OF lock] assms(4) by (simp add: rows.lookup_insert)
  then have "db' = db1\<lparr>guards := row_update gr_accountID account (record_snapshot ob) (guards db1), audit_events := es\<rparr>"
    using db' assms(5) by simp
  from held_after_update [OF inv' lock uniq this]
  have "upstreamQuotaGuardHeld db' k t =
      (if k = account then limitedAt (record_snapshot ob row) t else upstreamQuotaGuardHeld db k t)"
    by (simp add: row)
  moreover have "limitedAt (record_snapshot ob row) t = limitedAt row t" by (simp add: limitedAt_def record_snapshot_def)
  ultimately show ?thesis using held_iff [OF uniq, of account t] assms(4) by simp
qed

definition example_manual_db :: guard_db where
  "example_manual_db = example_guard_db\<lparr>guards := [(blank_row example_account)
     \<lparr>gr_status := ''limited'', gr_source := ''manual''\<rparr>]\<rparr>"

definition example_after_manual :: "(store_error + UpstreamQuotaGuardState) \<times> guard_db" where
  "example_after_manual =
     RecordUpstreamQuotaObservation example_refs example_manual_db ''codex'' example_account example_reading False 10 10"

theorem manual_state_survives_readings_witness:
  "upstreamQuotaGuardHeld (snd example_after_manual) example_account 900 =
   upstreamQuotaGuardHeld example_manual_db example_account 900"
proof (rule manual_state_survives_readings)
  show "guard_inv example_manual_db"
    by (simp add: guard_inv_def example_manual_db_def example_guard_db_def example_settings_def keys_unique_def
        guard_row_check_def blank_row_def window_in_range_def)
  show "ob_ObservedAt example_reading \<noteq> 0" by (simp add: example_reading_def)
  have "isl (fst example_after_manual) = False" by code_simp
  then show "RecordUpstreamQuotaObservation example_refs example_manual_db ''codex'' example_account example_reading False 10 10 =
      (Inr (projr (fst example_after_manual)), snd example_after_manual)"
    unfolding example_after_manual_def by (metis prod.collapse sum.collapse(2))
  show "row_lookup gr_accountID example_account (guards example_manual_db) =
      Some ((blank_row example_account)\<lparr>gr_status := ''limited'', gr_source := ''manual''\<rparr>)"
    by (simp add: example_manual_db_def)
qed simp

text \<open>
  C26: A change of the safety percentage takes effect at once: every account whose state the rule set is then held
  exactly when one of the windows of its last reading is tripped at the new percentage, and an account
  with a manual state or without a reading is held as before.
\<close>

theorem settings_change_reapplied:
  assumes "guard_inv db"
    and "SetUpstreamQuotaGuardSettings refs db percent actor at0 now = (Inr st, db')"
    and "row_lookup gr_accountID account (guards db) = Some row"
  defines "stamp \<equiv> normalizedGuardTime at0 now"
  shows "upstreamQuotaGuardHeld db' account stamp =
    (if gr_source row = ''auto'' \<and> gr_observedAt row \<noteq> None
     then window_tripped percent stamp (gr_fiveHour row) \<or> window_tripped percent stamp (gr_sevenDay row)
     else upstreamQuotaGuardHeld db account stamp)"
proof -
  have tx: "setUpstreamQuotaGuardSettingsTx refs percent actor stamp db = Inr (st, db')"
    using assms(2) unfolding SetUpstreamQuotaGuardSettings_def stamp_def by (auto simp: withTx_ok split: if_splits)
  obtain es where db': "db' = db\<lparr>guard_settings := st,
        guards := map (\<lambda>r. if reapplied r then reapply_row percent stamp r else r) (guards db), audit_events := es\<rparr>"
    by (rule settings_effect [OF assms(1) tx])
  have uniq: "keys_unique gr_accountID (guards db)" using assms(1) by (simp add: guard_inv_def)
  then have uniq': "keys_unique gr_accountID (guards db')" unfolding db' by (simp add: keys_unique_def)
  let ?new = "if reapplied row then reapply_row percent stamp row else row"
  have "?new \<in> set (guards db')" using row_lookup_Some [OF assms(3)] unfolding db' by auto
  moreover have "gr_accountID ?new = account" using row_lookup_Some [OF assms(3)] by simp
  ultimately have "row_lookup gr_accountID account (guards db') = Some ?new" using row_lookup_unique [OF uniq'] by metis
  then have "upstreamQuotaGuardHeld db' account stamp = limitedAt ?new stamp" using held_iff [OF uniq'] by simp
  moreover have "upstreamQuotaGuardHeld db account stamp = limitedAt row stamp" using held_iff [OF uniq] assms(3) by simp
  ultimately show ?thesis using limitedAt_reapplied [of row percent stamp]
    by (cases "reapplied row") (auto simp: reapplied_def)
qed

definition example_auto_row :: upstreamQuotaGuardRow where
  "example_auto_row = (blank_row example_account)
     \<lparr>gr_observedAt := Some 10, gr_fiveHour := Some \<lparr>UsedPercent = 80, win_ResetAt = Some 70\<rparr>\<rparr>"

definition example_auto_db :: guard_db where
  "example_auto_db = example_guard_db\<lparr>guards := [example_auto_row]\<rparr>"

definition example_after_settings :: "(store_error + UpstreamQuotaGuardSettings) \<times> guard_db" where
  "example_after_settings = SetUpstreamQuotaGuardSettings example_refs example_auto_db 20 example_owner 20 20"

theorem settings_change_reapplied_witness:
  "upstreamQuotaGuardHeld (snd example_after_settings) example_account (normalizedGuardTime 20 20) = True"
proof -
  have inv: "guard_inv example_auto_db"
    by (simp add: guard_inv_def example_auto_db_def example_auto_row_def example_guard_db_def example_settings_def
        keys_unique_def guard_row_check_def blank_row_def window_in_range_def)
  have "isl (fst example_after_settings) = False" by code_simp
  then have run: "SetUpstreamQuotaGuardSettings example_refs example_auto_db 20 example_owner 20 20 =
      (Inr (projr (fst example_after_settings)), snd example_after_settings)"
    unfolding example_after_settings_def by (metis prod.collapse sum.collapse(2))
  have row: "row_lookup gr_accountID example_account (guards example_auto_db) = Some example_auto_row"
    by (simp add: example_auto_db_def example_auto_row_def)
  show ?thesis
    unfolding settings_change_reapplied [OF inv run row] by code_simp
qed

end
