(* ===== verification/Guard_Scheduler.thy ===== *)
theory Guard_Scheduler
  imports Quota_Guard "HOL-Library.AList"
begin

text \<open>
  The server side of the quota guard, \<^verbatim>\<open>internal/server/upstream_quota_guard.go\<close>: the scheduler that decides which
  request starts an automatic check, the check itself on top of the store operations of \<^verbatim>\<open>Quota_Guard\<close>, and the owner's
  two requests. The map of entries is an association list; the channel of slots is the number of tokens in it. The mutex
  makes each method one step, except that \<^verbatim>\<open>finish\<close> receives from the channel after it has unlocked.
\<close>

section \<open>The scheduler\<close>

abbreviation GuardConcurrency :: nat where "GuardConcurrency \<equiv> 4"
abbreviation GuardMaxEntries :: nat where "GuardMaxEntries \<equiv> 4096"

record upstreamQuotaGuardEntry =
  en_next :: timestamp
  en_running :: bool

record upstreamQuotaGuardScheduler =
  sc_entries :: "(string \<times> upstreamQuotaGuardEntry) list"
  sc_slots :: nat

definition newUpstreamQuotaGuardScheduler :: upstreamQuotaGuardScheduler where
  "newUpstreamQuotaGuardScheduler = \<lparr>sc_entries = [], sc_slots = 0\<rparr>"

text \<open>Reading a missing key gives the zero value.\<close>

definition entry_of :: "upstreamQuotaGuardScheduler \<Rightarrow> string \<Rightarrow> upstreamQuotaGuardEntry" where
  "entry_of g account =
     (case map_of (sc_entries g) account of None \<Rightarrow> \<lparr>en_next = 0, en_running = False\<rparr> | Some e \<Rightarrow> e)"

definition begin_check ::
  "upstreamQuotaGuardScheduler \<Rightarrow> string \<Rightarrow> timestamp \<Rightarrow> bool \<times> upstreamQuotaGuardScheduler" where
  "begin_check g account now =
     (let entry = entry_of g account in
      if en_running entry \<or> now < en_next entry then (False, g)
      else if \<not> sc_slots g < GuardConcurrency then (False, g)
      else
        let entries = AList.update account (entry\<lparr>en_running := True\<rparr>) (sc_entries g);
            kept = (if length entries > GuardMaxEntries
                    then filter (\<lambda>(i, item). \<not> (\<not> en_running item \<and> \<not> now < en_next item)) entries else entries) in
        (True, g\<lparr>sc_entries := kept, sc_slots := sc_slots g + 1\<rparr>))"

definition finish_entry :: "upstreamQuotaGuardScheduler \<Rightarrow> string \<Rightarrow> timestamp \<Rightarrow> upstreamQuotaGuardScheduler" where
  "finish_entry g account nxt =
     g\<lparr>sc_entries := AList.update account \<lparr>en_next = nxt, en_running = False\<rparr> (sc_entries g)\<rparr>"

text \<open>A receive from an empty channel blocks: \<open>None\<close>.\<close>

definition finish_slot :: "upstreamQuotaGuardScheduler \<Rightarrow> upstreamQuotaGuardScheduler option" where
  "finish_slot g = (if sc_slots g = 0 then None else Some (g\<lparr>sc_slots := sc_slots g - 1\<rparr>))"

definition reschedule :: "upstreamQuotaGuardScheduler \<Rightarrow> string \<Rightarrow> timestamp \<Rightarrow> upstreamQuotaGuardScheduler" where
  "reschedule g account nxt =
     (if \<not> en_running (entry_of g account)
      then g\<lparr>sc_entries := AList.update account \<lparr>en_next = nxt, en_running = False\<rparr> (sc_entries g)\<rparr> else g)"

definition forget :: "upstreamQuotaGuardScheduler \<Rightarrow> upstreamQuotaGuardScheduler" where
  "forget g = g\<lparr>sc_entries := filter (\<lambda>(i, entry). en_running entry) (sc_entries g)\<rparr>"

section \<open>Checks and readings\<close>

definition validUpstreamAccountID :: "string \<Rightarrow> bool" where
  "validUpstreamAccountID s =
     (length s = 16 \<and>
      list_all (\<lambda>c. \<not> ((of_char c < (48 :: nat) \<or> of_char c > (57 :: nat)) \<and> (of_char c < (97 :: nat) \<or> of_char c > (102 :: nat)))) s)"

text \<open>
  \<open>noteUpstreamQuotaUse configured g account now\<close>: whether a check of the account is started, and the scheduler after it.
\<close>

definition noteUpstreamQuotaUse ::
  "bool \<Rightarrow> upstreamQuotaGuardScheduler \<Rightarrow> string \<Rightarrow> timestamp \<Rightarrow> bool \<times> upstreamQuotaGuardScheduler" where
  "noteUpstreamQuotaUse configured g account now =
     (if \<not> configured \<or> \<not> validUpstreamAccountID account then (False, g) else begin_check g account now)"


record accountUsageWindow =
  uw_UsedPercent :: "int option"
  uw_ResetAt :: "timestamp option"

record accountUsage =
  us_UpdatedAt :: "timestamp option"
  us_FiveHour :: "accountUsageWindow option"
  us_SevenDay :: "accountUsageWindow option"

definition observation_window :: "accountUsageWindow option \<Rightarrow> UpstreamQuotaWindow option" where
  "observation_window w =
     (case w of None \<Rightarrow> None
      | Some v \<Rightarrow> (case uw_UsedPercent v of None \<Rightarrow> None | Some p \<Rightarrow> Some \<lparr>UsedPercent = p, win_ResetAt = uw_ResetAt v\<rparr>))"

definition upstreamQuotaObservation :: "accountUsage \<Rightarrow> timestamp \<Rightarrow> UpstreamQuotaObservation" where
  "upstreamQuotaObservation usage stamp =
     \<lparr>ob_ObservedAt = (case us_UpdatedAt usage of None \<Rightarrow> stamp | Some t \<Rightarrow> t),
      ob_FiveHour = observation_window (us_FiveHour usage), ob_SevenDay = observation_window (us_SevenDay usage)\<rparr>"

definition recordUpstreamQuotaReading ::
  "audit_refs \<Rightarrow> bool \<Rightarrow> upstreamQuotaGuardScheduler \<Rightarrow> guard_db \<Rightarrow> string \<Rightarrow> string \<Rightarrow> accountUsage \<Rightarrow> timestamp
   \<Rightarrow> upstreamQuotaGuardScheduler \<times> guard_db" where
  "recordUpstreamQuotaReading refs configured g db provider account usage now =
     (if \<not> configured then (g, db)
      else
        case RecordUpstreamQuotaObservation refs db provider account (upstreamQuotaObservation usage now) False now now of
          (Inl e, db') \<Rightarrow> (g, db')
        | (Inr state, db') \<Rightarrow> (reschedule g account (NextAutomaticCheck state), db'))"

section \<open>The owner's requests\<close>

record upstreamQuotaGuardDTO =
  vw_Status :: string
  vw_Source :: string
  vw_LimitedWindow :: string
  vw_ResetAt :: "timestamp option"
  vw_RestoreAt :: "timestamp option"
  vw_ChangedAt :: "timestamp option"
  vw_ObservedAt :: "timestamp option"
  vw_FiveHour :: "UpstreamQuotaWindow option"
  vw_SevenDay :: "UpstreamQuotaWindow option"
  vw_NextCheckAt :: "timestamp option"

definition upstreamQuotaGuardView :: "UpstreamQuotaGuardState \<Rightarrow> bool \<Rightarrow> upstreamQuotaGuardDTO" where
  "upstreamQuotaGuardView state present =
     (if \<not> present
      then \<lparr>vw_Status = StatusAvailable, vw_Source = SourceAuto, vw_LimitedWindow = [], vw_ResetAt = None,
            vw_RestoreAt = None, vw_ChangedAt = None, vw_ObservedAt = None, vw_FiveHour = None, vw_SevenDay = None,
            vw_NextCheckAt = None\<rparr>
      else
        \<lparr>vw_Status = gs_Status state, vw_Source = gs_Source state, vw_LimitedWindow = gs_LimitedWindow state,
         vw_ResetAt = gs_ResetAt state, vw_RestoreAt = gs_RestoreAt state, vw_ChangedAt = gs_ChangedAt state,
         vw_ObservedAt = gs_ObservedAt state, vw_FiveHour = gs_FiveHour state, vw_SevenDay = gs_SevenDay state,
         vw_NextCheckAt = (if NextAutomaticCheck state \<noteq> 0 then Some (NextAutomaticCheck state) else None)\<rparr>)"

text \<open>
  A decoded request body: \<open>None\<close> when decoding failed, \<open>Some None\<close> when the field is null. A refusal carries the HTTP
  status and the error code; a store error is passed to the shared writer of store errors.
\<close>

datatype guard_reply =
    Refused int string
  | BadJSON
  | StoreWriteError store_error
  | GuardReply upstreamQuotaGuardDTO
  | SettingsReply UpstreamQuotaGuardSettings

definition setUpstreamAccountQuotaGuard ::
  "audit_refs \<Rightarrow> upstreamQuotaGuardScheduler \<Rightarrow> guard_db \<Rightarrow> string \<Rightarrow> guard_actor \<Rightarrow> string \<Rightarrow> bool \<Rightarrow> bool option option
   \<Rightarrow> timestamp \<Rightarrow> guard_reply \<times> upstreamQuotaGuardScheduler \<times> guard_db" where
  "setUpstreamAccountQuotaGuard refs g db provider actor account strict body now =
     (if \<not> validUpstreamAccountID account then (Refused 404 ''upstream_account_not_found'', g, db)
      else if \<not> strict then (Refused 400 ''invalid_upstream_quota_guard_request'', g, db)
      else
        case body of
          None \<Rightarrow> (BadJSON, g, db)
        | Some None \<Rightarrow> (Refused 400 ''invalid_upstream_quota_guard_status'', g, db)
        | Some (Some limited) \<Rightarrow>
            (case SetUpstreamQuotaGuardStatus refs db provider account limited actor now now of
               (Inl e, db') \<Rightarrow> (StoreWriteError e, g, db')
             | (Inr state, db') \<Rightarrow>
                 (GuardReply (upstreamQuotaGuardView state True), reschedule g account (NextAutomaticCheck state), db')))"

definition setUpstreamQuotaGuardSettings ::
  "audit_refs \<Rightarrow> upstreamQuotaGuardScheduler \<Rightarrow> guard_db \<Rightarrow> guard_actor \<Rightarrow> bool \<Rightarrow> go_int64 option option \<Rightarrow> timestamp
   \<Rightarrow> guard_reply \<times> upstreamQuotaGuardScheduler \<times> guard_db" where
  "setUpstreamQuotaGuardSettings refs g db actor strict body now =
     (if \<not> strict then (Refused 400 ''invalid_upstream_quota_guard_request'', g, db)
      else
        case body of
          None \<Rightarrow> (BadJSON, g, db)
        | Some percent \<Rightarrow>
            if (case percent of None \<Rightarrow> True | Some p \<Rightarrow> p < 0 \<or> p > MaxUpstreamQuotaGuardPercent)
            then (Refused 400 ''invalid_upstream_quota_guard_percent'', g, db)
            else
              (case SetUpstreamQuotaGuardSettings refs db (the percent) actor now now of
                 (Inl e, db') \<Rightarrow> (StoreWriteError e, g, db')
               | (Inr settings, db') \<Rightarrow> (SettingsReply settings, forget g, db')))"

section \<open>Runs of the scheduler\<close>

text \<open>
  The goroutines: the accounts whose check is in progress, and the number of checks that have written their entry and
  are about to return their slot. The times are arbitrary.
\<close>

type_synonym sched_system = "upstreamQuotaGuardScheduler \<times> string list \<times> nat"

inductive sched_step :: "sched_system \<Rightarrow> sched_system \<Rightarrow> bool" where
  started: "noteUpstreamQuotaUse configured g account now = (True, g') \<Longrightarrow>
    sched_step (g, busy, releasing) (g', account # busy, releasing)"
| skipped: "noteUpstreamQuotaUse configured g account now = (False, g') \<Longrightarrow>
    sched_step (g, busy, releasing) (g', busy, releasing)"
| written: "account \<in> set busy \<Longrightarrow>
    sched_step (g, busy, releasing) (finish_entry g account nxt, remove1 account busy, Suc releasing)"
| returned: "finish_slot g = Some g' \<Longrightarrow> sched_step (g, busy, Suc releasing) (g', busy, releasing)"
| rescheduled: "sched_step (g, busy, releasing) (reschedule g account nxt, busy, releasing)"
| forgotten: "sched_step (g, busy, releasing) (forget g, busy, releasing)"

inductive sched_reach :: "sched_system \<Rightarrow> bool" where
  initial: "sched_reach (newUpstreamQuotaGuardScheduler, [], 0)"
| later: "sched_reach s \<Longrightarrow> sched_step s t \<Longrightarrow> sched_reach t"

inductive_cases sched_stepE: "sched_step (g, busy, releasing) t"

definition sched_inv :: "sched_system \<Rightarrow> bool" where
  "sched_inv = (\<lambda>(g, busy, releasing).
     distinct (map fst (sc_entries g)) \<and> distinct busy
     \<and> (\<forall>a. en_running (entry_of g a) \<longleftrightarrow> a \<in> set busy)
     \<and> sc_slots g = length busy + releasing \<and> sc_slots g \<le> GuardConcurrency)"

lemma entry_of_update [simp]:
  "entry_of (g\<lparr>sc_entries := AList.update account e (sc_entries g)\<rparr>) a = (if a = account then e else entry_of g a)"
  by (simp add: entry_of_def update_conv')

lemma entry_of_slots [simp]: "entry_of (g\<lparr>sc_slots := n\<rparr>) a = entry_of g a"
  by (simp add: entry_of_def)

lemma map_of_filter_distinct:
  "distinct (map fst xs) \<Longrightarrow> map_of (filter (\<lambda>(i, e). P e) xs) a =
     (case map_of xs a of None \<Rightarrow> None | Some e \<Rightarrow> if P e then Some e else None)"
proof (induction xs)
  case (Cons x xs)
  obtain i e where x: "x = (i, e)" by force
  have "map_of xs i = None" using Cons.prems x by (simp add: map_of_eq_None_iff)
  then show ?case using Cons by (auto simp: x)
qed simp

lemma running_filter:
  assumes "distinct (map fst (sc_entries g))" and "\<And>e. en_running e \<Longrightarrow> P e"
  shows "en_running (entry_of (g\<lparr>sc_entries := filter (\<lambda>(i, e). P e) (sc_entries g)\<rparr>) a) \<longleftrightarrow> en_running (entry_of g a)"
  using assms by (auto simp: entry_of_def map_of_filter_distinct split: option.splits)

lemma distinct_filter_keys: "distinct (map fst xs) \<Longrightarrow> distinct (map fst (filter P xs))"
  by (induction xs) auto

lemma begin_check_True:
  assumes "begin_check g account now = (True, g')" and "distinct (map fst (sc_entries g))"
  shows "\<not> en_running (entry_of g account)" and "sc_slots g < GuardConcurrency" and "sc_slots g' = sc_slots g + 1"
    and "distinct (map fst (sc_entries g'))" and "en_running (entry_of g' a) \<longleftrightarrow> a = account \<or> en_running (entry_of g a)"
proof -
  let ?es = "AList.update account ((entry_of g account)\<lparr>en_running := True\<rparr>) (sc_entries g)"
  let ?keep = "\<lambda>item. \<not> (\<not> en_running item \<and> \<not> now < en_next item)"
  let ?k = "if length ?es > GuardMaxEntries then filter (\<lambda>(i, item). ?keep item) ?es else ?es"
  show idle: "\<not> en_running (entry_of g account)" and free: "sc_slots g < GuardConcurrency"
    using assms(1) unfolding begin_check_def Let_def by (auto split: if_splits)
  have g': "g' = g\<lparr>sc_entries := ?k, sc_slots := sc_slots g + 1\<rparr>"
    using assms(1) idle free unfolding begin_check_def Let_def by (auto split: if_splits)
  show "sc_slots g' = sc_slots g + 1" unfolding g' by simp
  have d: "distinct (map fst ?es)" using assms(2) by (rule distinct_update)
  then show "distinct (map fst (sc_entries g'))" unfolding g' by (simp add: distinct_filter_keys)
  let ?g = "g\<lparr>sc_entries := ?es\<rparr>"
  have "en_running (entry_of (?g\<lparr>sc_entries := filter (\<lambda>(i, e). ?keep e) (sc_entries ?g)\<rparr>) a) \<longleftrightarrow> en_running (entry_of ?g a)"
    by (rule running_filter) (use d in simp_all)
  then have "en_running (entry_of (g\<lparr>sc_entries := ?k\<rparr>) a) \<longleftrightarrow> en_running (entry_of ?g a)"
    by (cases "length ?es > GuardMaxEntries") (auto split: if_splits)
  then have "en_running (entry_of g' a) \<longleftrightarrow> en_running (entry_of ?g a)" unfolding g' by (simp add: entry_of_def)
  then show "en_running (entry_of g' a) \<longleftrightarrow> a = account \<or> en_running (entry_of g a)" by simp
qed

lemma begin_check_False: "begin_check g account now = (False, g') \<Longrightarrow> g' = g"
  unfolding begin_check_def Let_def by (auto split: if_splits)

lemma sched_step_inv:
  assumes "sched_step s t" and "sched_inv s"
  shows "sched_inv t"
  using assms
proof (cases rule: sched_step.cases)
  case (started configured g account now g' busy releasing)
  then have b: "begin_check g account now = (True, g')" by (simp add: noteUpstreamQuotaUse_def split: if_splits)
  have d: "distinct (map fst (sc_entries g))" using assms(2) started by (simp add: sched_inv_def)
  show ?thesis using begin_check_True [OF b d] assms(2) started by (auto simp: sched_inv_def)
next
  case (skipped configured g account now g' busy releasing)
  then have "g' = g" using begin_check_False by (auto simp: noteUpstreamQuotaUse_def split: if_splits)
  then show ?thesis using skipped assms(2) by simp
next
  case (written account busy g releasing nxt)
  then show ?thesis
    using assms(2) by (auto simp: sched_inv_def finish_entry_def distinct_update length_remove1 dest: length_pos_if_in_set)
next
  case (returned g g' busy releasing)
  then show ?thesis using assms(2) by (auto simp: sched_inv_def finish_slot_def split: if_splits)
next
  case (rescheduled g busy releasing account nxt)
  then show ?thesis using assms(2) by (auto simp: sched_inv_def reschedule_def distinct_update)
next
  case (forgotten g busy releasing)
  have d: "distinct (map fst (sc_entries g))" using assms(2) forgotten by (simp add: sched_inv_def)
  have "en_running (entry_of (forget g) a) \<longleftrightarrow> en_running (entry_of g a)" for a
    unfolding forget_def by (rule running_filter [OF d]) simp
  then show ?thesis using forgotten assms(2) distinct_filter_keys [OF d] by (simp add: sched_inv_def forget_def)
qed

lemma sched_reach_inv: "sched_reach s \<Longrightarrow> sched_inv s"
proof (induction rule: sched_reach.induct)
  case initial
  show ?case by (simp add: sched_inv_def newUpstreamQuotaGuardScheduler_def entry_of_def)
next
  case (later s t)
  then show ?case using sched_step_inv by blast
qed

section \<open>The time of the next check\<close>





section \<open>Properties\<close>

text \<open>
  C11: in every interleaving of requests, checks, readings and owner changes, at most four automatic checks run at a time
  and at most one per account, an entry is marked running exactly while its check runs, and a check that ends always
  finds its slot to return: it never blocks on the channel.
\<close>

theorem scheduled_checks_bounded:
  assumes "sched_reach (g, busy, releasing)"
  shows "length busy + releasing = sc_slots g \<and> sc_slots g \<le> 4 \<and> distinct busy
    \<and> (\<forall>a. en_running (entry_of g a) \<longleftrightarrow> a \<in> set busy)
    \<and> (0 < releasing \<longrightarrow> (\<exists>g'. finish_slot g = Some g'))"
  using sched_reach_inv [OF assms] by (auto simp: sched_inv_def finish_slot_def)

theorem scheduled_checks_bounded_witness:
  "let g = snd (begin_check newUpstreamQuotaGuardScheduler example_account 7) in
     sched_reach (g, [example_account], 0) \<and> sc_slots g = 1 \<and> en_running (entry_of g example_account)"
proof -
  let ?g = "snd (begin_check newUpstreamQuotaGuardScheduler example_account 7)"
  have "noteUpstreamQuotaUse True newUpstreamQuotaGuardScheduler example_account 7 = (True, ?g)" by code_simp
  from sched_reach.later [OF sched_reach.initial sched_step.started [OF this]]
  have r: "sched_reach (?g, [example_account], 0)" .
  show ?thesis unfolding Let_def using r scheduled_checks_bounded [OF r] by simp
qed



end
