(* ===== verification/Quota.thy ===== *)
theory Quota
  imports Audit_Log
begin

text \<open>
  Durable request quotas, \<^verbatim>\<open>internal/store/quota.go\<close>: per-minute windows, daily counters and concurrency leases per
  API key, per user and globally. A request reserves all of them in one transaction and later settles or
  releases its reservation. Identifiers are UUIDs in canonical form and the API keys with their owners are a
  table of the database. Modelled are the quota operations and the retention clean-up; the joint transactions with usage and billing are not.
\<close>

section \<open>Types\<close>

record QuotaLimits =
  KeyRequestsPerMinute :: go_int64
  UserRequestsPerMinute :: go_int64
  KeyConcurrent :: go_int64
  UserConcurrent :: go_int64
  GlobalConcurrent :: go_int64
  KeyDailyRequests :: go_int64
  UserDailyRequests :: go_int64

text \<open>A Go time with the offset, in seconds, of its location; only the calendar day depends on it.\<close>

type_synonym zoned = "timestamp \<times> int"

definition calendar_day :: "zoned \<Rightarrow> int" where
  "calendar_day t = (fst t div second + snd t) div 86400"

record ReserveQuotaParams =
  rq_RequestID :: string
  rq_UserID :: string
  rq_APIKeyID :: string
  rq_Day :: zoned
  rq_Now :: zoned
  rq_ReservedTokens :: go_int64
  rq_LeaseTTL :: duration
  rq_Limits :: QuotaLimits

record QuotaReservation =
  qr_RequestID :: string
  qr_Day :: int
  qr_UserID :: string
  qr_APIKeyID :: string
  qr_ReservedTokens :: go_int64
  qr_ActualTokens :: "go_int64 option"
  qr_State :: string
  qr_CreatedAt :: timestamp
  qr_SettledAt :: "timestamp option"

record QuotaCounter =
  qc_Day :: int
  qc_ScopeType :: string
  qc_ScopeID :: string
  RequestsReserved :: go_int64
  RequestsCompleted :: go_int64
  TokensReserved :: go_int64
  TokensUsed :: go_int64
  qc_UpdatedAt :: timestamp

record rate_window =
  rw_start :: timestamp
  rw_scope :: string
  rw_id :: string
  request_count :: go_int64

record lease =
  ls_request :: string
  ls_user :: string
  ls_key :: string
  ls_created :: timestamp
  ls_expires :: timestamp

record quota_db =
  key_owners :: "(string \<times> string) list"
  quota_locks :: "(string \<times> string) list"
  windows :: "rate_window list"
  counters :: "QuotaCounter list"
  reservations :: "QuotaReservation list"
  leases :: "lease list"

abbreviation counter_key :: "QuotaCounter \<Rightarrow> int \<times> string \<times> string" where
  "counter_key c \<equiv> (qc_Day c, qc_ScopeType c, qc_ScopeID c)"

abbreviation window_key :: "rate_window \<Rightarrow> timestamp \<times> string \<times> string" where
  "window_key w \<equiv> (rw_start w, rw_scope w, rw_id w)"

section \<open>Constraints of the tables\<close>

definition int64_range :: "int \<Rightarrow> bool" where
  "int64_range x = (- (2 ^ 63) \<le> x \<and> x < 2 ^ 63)"

definition counter_check :: "QuotaCounter \<Rightarrow> bool" where
  "counter_check c =
     (qc_ScopeType c \<in> {''user'', ''key''}
      \<and> 0 \<le> RequestsReserved c \<and> 0 \<le> RequestsCompleted c \<and> RequestsCompleted c \<le> RequestsReserved c
      \<and> 0 \<le> TokensReserved c \<and> 0 \<le> TokensUsed c
      \<and> int64_range (RequestsReserved c) \<and> int64_range (RequestsCompleted c)
      \<and> int64_range (TokensReserved c) \<and> int64_range (TokensUsed c))"

definition window_check :: "rate_window \<Rightarrow> bool" where
  "window_check w =
     (rw_scope w \<in> {''user'', ''key''} \<and> 0 \<le> request_count w \<and> int64_range (request_count w)
      \<and> rw_start w mod minute = 0)"

definition request_id_valid :: "string \<Rightarrow> bool" where
  "request_id_valid s = (16 \<le> char_length s \<and> char_length s \<le> 128)"

definition reservation_check :: "quota_db \<Rightarrow> QuotaReservation \<Rightarrow> bool" where
  "reservation_check db r =
     (request_id_valid (qr_RequestID r) \<and> (qr_APIKeyID r, qr_UserID r) \<in> set (key_owners db)
      \<and> 0 \<le> qr_ReservedTokens r \<and> int64_range (qr_ReservedTokens r)
      \<and> (case qr_ActualTokens r of None \<Rightarrow> True | Some a \<Rightarrow> 0 \<le> a \<and> int64_range a)
      \<and> (qr_State r = ''reserved'' \<and> qr_ActualTokens r = None \<and> qr_SettledAt r = None
         \<or> qr_State r = ''settled'' \<and> qr_ActualTokens r \<noteq> None \<and> qr_SettledAt r \<noteq> None
         \<or> qr_State r = ''released'' \<and> qr_ActualTokens r = None \<and> qr_SettledAt r \<noteq> None))"

definition lease_check :: "quota_db \<Rightarrow> lease \<Rightarrow> bool" where
  "lease_check db l =
     (request_id_valid (ls_request l) \<and> (ls_key l, ls_user l) \<in> set (key_owners db) \<and> ls_created l < ls_expires l)"

section \<open>Admission\<close>

definition validateQuotaLimits :: "QuotaLimits \<Rightarrow> store_error + unit" where
  "validateQuotaLimits l =
     (if list_ex (\<lambda>v. v < 0)
        [KeyRequestsPerMinute l, UserRequestsPerMinute l, KeyConcurrent l, UserConcurrent l, GlobalConcurrent l,
         KeyDailyRequests l, UserDailyRequests l]
      then Inl ErrInvalid else Inr ())"

text \<open>\<open>clock\<close> is the clock of the store, in UTC.\<close>

definition normalizeReserveQuota :: "timestamp \<Rightarrow> ReserveQuotaParams \<Rightarrow> store_error + ReserveQuotaParams" where
  "normalizeReserveQuota clock p =
     (if rq_RequestID p = [] \<or> rq_UserID p = [] \<or> rq_APIKeyID p = [] \<or> rq_ReservedTokens p < 0 then Inl ErrInvalid
      else
        let p1 = (if fst (rq_Now p) = 0 then p\<lparr>rq_Now := (clock, 0)\<rparr> else p);
            p2 = (if fst (rq_Day p1) = 0 then p1\<lparr>rq_Day := rq_Now p1\<rparr> else p1);
            p3 = (if rq_LeaseTTL p2 \<le> 0 then p2\<lparr>rq_LeaseTTL := 5 * minute\<rparr> else p2) in
        if rq_LeaseTTL p3 > 30 * minute then Inl ErrInvalid
        else andThen (validateQuotaLimits (rq_Limits p3)) (\<lambda>_. Inr p3))"

definition enforceQuota ::
  "string \<Rightarrow> string \<Rightarrow> go_int64 \<Rightarrow> go_int64 \<Rightarrow> go_int64 \<Rightarrow> duration \<Rightarrow> store_error + unit" where
  "enforceQuota scope dimension lmt current requested retry =
     (if lmt = 0 \<or> wrap64 (current + requested) \<le> lmt then Inr ()
      else Inl (ErrQuotaExceeded \<lparr>qe_Scope = scope, qe_Dimension = dimension, qe_Limit = lmt, qe_Current = current,
                                  qe_Requested = requested, qe_RetryAfter = retry\<rparr>))"

text \<open>
  The lock rows are created when missing and locked in the order of their key; the locked rows are the second
  component.
\<close>

definition wanted_lock :: "string \<Rightarrow> string \<Rightarrow> string \<times> string \<Rightarrow> bool" where
  "wanted_lock userID keyID l = (l \<in> {(''global'', ''global''), (''key'', keyID), (''user'', userID)})"

definition lockQuotaScopes ::
  "quota_db \<Rightarrow> string \<Rightarrow> string \<Rightarrow> store_error + (quota_db \<times> (string \<times> string) list)" where
  "lockQuotaScopes db userID keyID =
     (let ls = fold (sql_insert_ignore (\<lambda>l. l)) [(''global'', ''global''), (''key'', keyID), (''user'', userID)] (quota_locks db);
          locked = sort_key snd (filter (wanted_lock userID keyID) ls) in
      let ordered = sort_key fst locked in
      if length ordered \<noteq> 3 then Inl ErrUnexpectedRows else Inr (db\<lparr>quota_locks := ls\<rparr>, ordered))"

definition in_scope :: "string \<Rightarrow> string \<Rightarrow> string \<Rightarrow> string \<Rightarrow> bool" where
  "in_scope keyID userID t i = (t = ''key'' \<and> i = keyID \<or> t = ''user'' \<and> i = userID)"

text \<open>A result map with one entry per scope type: the entry of a scope is the last row read.\<close>

definition scope_entry :: "('r \<Rightarrow> string) \<Rightarrow> string \<Rightarrow> 'r list \<Rightarrow> 'r option" where
  "scope_entry scope t rows = row_lookup scope t (rev rows)"

definition readRateCounts ::
  "quota_db \<Rightarrow> timestamp \<Rightarrow> string \<Rightarrow> string \<Rightarrow> store_error + (go_int64 \<times> go_int64)" where
  "readRateCounts db start userID keyID =
     (let rows = filter (\<lambda>w. rw_start w = start \<and> in_scope keyID userID (rw_scope w) (rw_id w)) (windows db) in
      case (scope_entry rw_scope ''key'' rows, scope_entry rw_scope ''user'' rows) of
        (Some k, Some u) \<Rightarrow> Inr (request_count k, request_count u)
      | _ \<Rightarrow> Inl ErrUnexpectedRows)"

definition readQuotaSnapshots ::
  "quota_db \<Rightarrow> int \<Rightarrow> string \<Rightarrow> string \<Rightarrow> store_error + (go_int64 \<times> go_int64)" where
  "readQuotaSnapshots db day userID keyID =
     (let rows = filter (\<lambda>c. qc_Day c = day \<and> in_scope keyID userID (qc_ScopeType c) (qc_ScopeID c)) (counters db) in
      case (scope_entry qc_ScopeType ''key'' rows, scope_entry qc_ScopeType ''user'' rows) of
        (Some k, Some u) \<Rightarrow> Inr (RequestsReserved k, RequestsReserved u)
      | _ \<Rightarrow> Inl ErrUnexpectedRows)"

definition blank_window :: "timestamp \<Rightarrow> string \<Rightarrow> string \<Rightarrow> rate_window" where
  "blank_window start scope i = \<lparr>rw_start = start, rw_scope = scope, rw_id = i, request_count = 0\<rparr>"

definition blank_counter :: "int \<Rightarrow> timestamp \<Rightarrow> string \<Rightarrow> string \<Rightarrow> QuotaCounter" where
  "blank_counter day now scope i =
     \<lparr>qc_Day = day, qc_ScopeType = scope, qc_ScopeID = i, RequestsReserved = 0, RequestsCompleted = 0,
      TokensReserved = 0, TokensUsed = 0, qc_UpdatedAt = now\<rparr>"

definition live_leases :: "(lease \<Rightarrow> bool) \<Rightarrow> timestamp \<Rightarrow> quota_db \<Rightarrow> nat" where
  "live_leases p now db = length (filter (\<lambda>l. p l \<and> ls_expires l > now) (leases db))"

definition enforce_concurrency :: "ReserveQuotaParams \<Rightarrow> quota_db \<Rightarrow> store_error + unit" where
  "enforce_concurrency p db =
     (let now = fst (rq_Now p); l = rq_Limits p in
      andThen (enforceQuota ''key'' ''concurrency'' (KeyConcurrent l)
                 (int (live_leases (\<lambda>x. ls_key x = rq_APIKeyID p) now db)) 1 second)
        (\<lambda>_. andThen (enforceQuota ''user'' ''concurrency'' (UserConcurrent l)
                 (int (live_leases (\<lambda>x. ls_user x = rq_UserID p) now db)) 1 second)
        (\<lambda>_. enforceQuota ''global'' ''concurrency'' (GlobalConcurrent l)
                 (int (live_leases (\<lambda>x. True) now db)) 1 second)))"

definition window_start :: "ReserveQuotaParams \<Rightarrow> timestamp" where
  "window_start p = time_truncate (fst (rq_Now p)) minute"

definition add_windows :: "ReserveQuotaParams \<Rightarrow> quota_db \<Rightarrow> quota_db" where
  "add_windows p db =
     db\<lparr>windows := sql_insert_ignore window_key (blank_window (window_start p) ''user'' (rq_UserID p))
         (sql_insert_ignore window_key (blank_window (window_start p) ''key'' (rq_APIKeyID p)) (windows db))\<rparr>"

definition add_counters :: "ReserveQuotaParams \<Rightarrow> quota_db \<Rightarrow> quota_db" where
  "add_counters p db =
     (let day = calendar_day (rq_Day p); now = fst (rq_Now p) in
      db\<lparr>counters := sql_insert_ignore counter_key (blank_counter day now ''user'' (rq_UserID p))
          (sql_insert_ignore counter_key (blank_counter day now ''key'' (rq_APIKeyID p)) (counters db))\<rparr>)"

definition enforce_rate :: "ReserveQuotaParams \<Rightarrow> quota_db \<Rightarrow> store_error + unit" where
  "enforce_rate p db =
     (let start = window_start p; retry = max second (start + minute - fst (rq_Now p)); l = rq_Limits p in
      andThen (readRateCounts db start (rq_UserID p) (rq_APIKeyID p))
        (\<lambda>(k, u). andThen (enforceQuota ''key'' ''rpm'' (KeyRequestsPerMinute l) k 1 retry)
           (\<lambda>_. enforceQuota ''user'' ''rpm'' (UserRequestsPerMinute l) u 1 retry)))"

definition enforce_daily :: "ReserveQuotaParams \<Rightarrow> quota_db \<Rightarrow> store_error + unit" where
  "enforce_daily p db =
     (let l = rq_Limits p in
      andThen (readQuotaSnapshots db (calendar_day (rq_Day p)) (rq_UserID p) (rq_APIKeyID p))
        (\<lambda>(k, u). andThen (enforceQuota ''key'' ''daily_requests'' (KeyDailyRequests l) k 1 (24 * hour))
           (\<lambda>_. enforceQuota ''user'' ''daily_requests'' (UserDailyRequests l) u 1 (24 * hour))))"

definition increment_windows :: "ReserveQuotaParams \<Rightarrow> quota_db \<Rightarrow> store_error + quota_db" where
  "increment_windows p db =
     andThen (sql_update window_check
         (\<lambda>w. rw_start w = window_start p \<and> in_scope (rq_APIKeyID p) (rq_UserID p) (rw_scope w) (rw_id w))
         (\<lambda>w. w\<lparr>request_count := request_count w + 1\<rparr>) (windows db))
       (\<lambda>(ws, n). andThen (requireExactlyAffected n 2) (\<lambda>_. Inr (db\<lparr>windows := ws\<rparr>)))"

text \<open>\<^verbatim>\<open>UPDATE quota_counters ... WHERE quota_day = $1 AND p AND\<close> one of the two scopes, two rows expected.\<close>

definition update_counters ::
  "int \<Rightarrow> string \<Rightarrow> string \<Rightarrow> (QuotaCounter \<Rightarrow> bool) \<Rightarrow> (QuotaCounter \<Rightarrow> QuotaCounter) \<Rightarrow> quota_db \<Rightarrow> store_error + quota_db" where
  "update_counters day keyID userID p f db =
     andThen (sql_update counter_check
         (\<lambda>c. qc_Day c = day \<and> p c \<and> in_scope keyID userID (qc_ScopeType c) (qc_ScopeID c)) f (counters db))
       (\<lambda>(cs, n). andThen (requireExactlyAffected n 2) (\<lambda>_. Inr (db\<lparr>counters := cs\<rparr>)))"

definition new_reservation :: "ReserveQuotaParams \<Rightarrow> QuotaReservation" where
  "new_reservation p =
     \<lparr>qr_RequestID = rq_RequestID p, qr_Day = calendar_day (rq_Day p), qr_UserID = rq_UserID p,
      qr_APIKeyID = rq_APIKeyID p, qr_ReservedTokens = rq_ReservedTokens p, qr_ActualTokens = None,
      qr_State = ''reserved'', qr_CreatedAt = fst (rq_Now p), qr_SettledAt = None\<rparr>"

definition new_lease :: "ReserveQuotaParams \<Rightarrow> lease" where
  "new_lease p =
     \<lparr>ls_request = rq_RequestID p, ls_user = rq_UserID p, ls_key = rq_APIKeyID p, ls_created = fst (rq_Now p),
      ls_expires = fst (rq_Now p) + rq_LeaseTTL p\<rparr>"

definition insert_reservation :: "ReserveQuotaParams \<Rightarrow> quota_db \<Rightarrow> store_error + quota_db" where
  "insert_reservation p db =
     andThen (sql_insert (reservation_check db) qr_RequestID (new_reservation p) (reservations db))
       (\<lambda>rs. Inr (db\<lparr>reservations := rs\<rparr>))"

definition insert_lease :: "ReserveQuotaParams \<Rightarrow> quota_db \<Rightarrow> store_error + quota_db" where
  "insert_lease p db =
     andThen (sql_insert (lease_check db) ls_request (new_lease p) (leases db)) (\<lambda>ls. Inr (db\<lparr>leases := ls\<rparr>))"

definition expire_leases :: "ReserveQuotaParams \<Rightarrow> quota_db \<Rightarrow> quota_db" where
  "expire_leases p db = db\<lparr>leases := sql_delete (\<lambda>l. ls_expires l \<le> fst (rq_Now p)) (leases db)\<rparr>"

definition reserve_counter :: "ReserveQuotaParams \<Rightarrow> QuotaCounter \<Rightarrow> QuotaCounter" where
  "reserve_counter p c =
     c\<lparr>RequestsReserved := RequestsReserved c + 1, TokensReserved := TokensReserved c + rq_ReservedTokens p,
       qc_UpdatedAt := fst (rq_Now p)\<rparr>"

definition reserveQuotaLockedTx :: "ReserveQuotaParams \<Rightarrow> quota_db \<Rightarrow> store_error + (QuotaReservation \<times> quota_db)" where
  "reserveQuotaLockedTx p db0 =
     (let db1 = expire_leases p db0 in
      andThen (enforce_concurrency p db1) (\<lambda>_.
      let db2 = add_windows p db1 in
      andThen (enforce_rate p db2) (\<lambda>_.
      let db3 = add_counters p db2 in
      andThen (enforce_daily p db3) (\<lambda>_.
      andThen (increment_windows p db3) (\<lambda>db4.
      andThen (update_counters (calendar_day (rq_Day p)) (rq_APIKeyID p) (rq_UserID p) (\<lambda>c. True) (reserve_counter p) db4) (\<lambda>db5.
      andThen (insert_reservation p db5) (\<lambda>db6.
      andThen (insert_lease p db6) (\<lambda>db7. Inr (new_reservation p, db7)))))))))"

definition reserveQuotaTx :: "ReserveQuotaParams \<Rightarrow> quota_db \<Rightarrow> store_error + (QuotaReservation \<times> quota_db)" where
  "reserveQuotaTx p db =
     andThen (lockQuotaScopes db (rq_UserID p) (rq_APIKeyID p)) (\<lambda>(db1, locked). reserveQuotaLockedTx p db1)"

definition ReserveQuota :: "timestamp \<Rightarrow> ReserveQuotaParams \<Rightarrow> quota_db \<Rightarrow> (store_error + QuotaReservation) \<times> quota_db" where
  "ReserveQuota clock p db =
     (case normalizeReserveQuota clock p of
        Inl e \<Rightarrow> (Inl e, db)
      | Inr p' \<Rightarrow> withTx (reserveQuotaTx p') db)"

section \<open>Settlement and release\<close>

definition readReservation :: "quota_db \<Rightarrow> string \<Rightarrow> store_error + QuotaReservation" where
  "readReservation db requestID =
     (case row_lookup qr_RequestID requestID (reservations db) of None \<Rightarrow> Inl ErrNotFound | Some r \<Rightarrow> Inr r)"

definition finish_reservation ::
  "string \<Rightarrow> (QuotaReservation \<Rightarrow> QuotaReservation) \<Rightarrow> quota_db \<Rightarrow> store_error + quota_db" where
  "finish_reservation requestID f db =
     andThen (sql_update (reservation_check db) (\<lambda>r. qr_RequestID r = requestID) f (reservations db))
       (\<lambda>(rs, n). Inr (db\<lparr>reservations := rs, leases := sql_delete (\<lambda>l. ls_request l = requestID) (leases db)\<rparr>))"

definition settle_counter :: "go_int64 \<Rightarrow> go_int64 \<Rightarrow> timestamp \<Rightarrow> QuotaCounter \<Rightarrow> QuotaCounter" where
  "settle_counter reserved actual stamp c =
     c\<lparr>RequestsCompleted := RequestsCompleted c + 1, TokensReserved := TokensReserved c - reserved,
       TokensUsed := TokensUsed c + actual, qc_UpdatedAt := stamp\<rparr>"

definition settleQuotaTx :: "string \<Rightarrow> go_int64 \<Rightarrow> timestamp \<Rightarrow> quota_db \<Rightarrow> store_error + quota_db" where
  "settleQuotaTx requestID actual stamp db =
     andThen (readReservation db requestID) (\<lambda>r.
       if qr_State r = ''settled''
       then (if qr_ActualTokens r = Some actual then Inr db else Inl ErrConflict)
       else if qr_State r = ''released'' then Inl ErrConflict
       else
         andThen (update_counters (qr_Day r) (qr_APIKeyID r) (qr_UserID r) (\<lambda>c. TokensReserved c \<ge> qr_ReservedTokens r)
                    (settle_counter (qr_ReservedTokens r) actual stamp) db)
           (finish_reservation requestID
              (\<lambda>r. r\<lparr>qr_State := ''settled'', qr_ActualTokens := Some actual, qr_SettledAt := Some stamp\<rparr>)))"

definition release_counter :: "go_int64 \<Rightarrow> timestamp \<Rightarrow> QuotaCounter \<Rightarrow> QuotaCounter" where
  "release_counter reserved stamp c =
     c\<lparr>RequestsReserved := RequestsReserved c - 1, TokensReserved := TokensReserved c - reserved, qc_UpdatedAt := stamp\<rparr>"

definition releaseQuotaTx :: "string \<Rightarrow> timestamp \<Rightarrow> quota_db \<Rightarrow> store_error + quota_db" where
  "releaseQuotaTx requestID stamp db =
     andThen (readReservation db requestID) (\<lambda>r.
       if qr_State r = ''released'' then Inr db
       else if qr_State r = ''settled'' then Inl ErrConflict
       else
         andThen (update_counters (qr_Day r) (qr_APIKeyID r) (qr_UserID r)
                    (\<lambda>c. RequestsReserved c > 0 \<and> TokensReserved c \<ge> qr_ReservedTokens r)
                    (release_counter (qr_ReservedTokens r) stamp) db)
           (finish_reservation requestID (\<lambda>r. r\<lparr>qr_State := ''released'', qr_SettledAt := Some stamp\<rparr>)))"

text \<open>Both read the reservation, lock its scopes and then run the body above.\<close>

definition locked_by_reservation ::
  "string \<Rightarrow> (quota_db \<Rightarrow> store_error + quota_db) \<Rightarrow> quota_db \<Rightarrow> store_error + (unit \<times> quota_db)" where
  "locked_by_reservation requestID body db =
     andThen (readReservation db requestID) (\<lambda>pre.
       andThen (lockQuotaScopes db (qr_UserID pre) (qr_APIKeyID pre))
         (\<lambda>(db1, locked). andThen (body db1) (\<lambda>db2. Inr ((), db2))))"

definition SettleQuota ::
  "timestamp \<Rightarrow> string \<Rightarrow> go_int64 \<Rightarrow> timestamp \<Rightarrow> quota_db \<Rightarrow> (store_error + unit) \<times> quota_db" where
  "SettleQuota clock requestID actual at0 db =
     (if requestID = [] \<or> actual < 0 then (Inl ErrInvalid, db)
      else withTx (locked_by_reservation requestID (settleQuotaTx requestID actual (if at0 = 0 then clock else at0))) db)"

definition ReleaseQuota :: "timestamp \<Rightarrow> string \<Rightarrow> timestamp \<Rightarrow> quota_db \<Rightarrow> (store_error + unit) \<times> quota_db" where
  "ReleaseQuota clock requestID at0 db =
     (if requestID = [] then (Inl ErrInvalid, db)
      else withTx (locked_by_reservation requestID (releaseQuotaTx requestID (if at0 = 0 then clock else at0))) db)"

definition renewable :: "quota_db \<Rightarrow> string \<Rightarrow> timestamp \<Rightarrow> lease \<Rightarrow> bool" where
  "renewable db requestID stamp l =
     (ls_request l = requestID \<and> ls_expires l > stamp
      \<and> list_ex (\<lambda>r. qr_RequestID r = ls_request l \<and> qr_State r = ''reserved'') (reservations db))"

definition RenewQuotaLease ::
  "timestamp \<Rightarrow> string \<Rightarrow> timestamp \<Rightarrow> duration \<Rightarrow> quota_db \<Rightarrow> (store_error + unit) \<times> quota_db" where
  "RenewQuotaLease clock requestID at0 ttl db =
     (if ttl \<le> 0 \<or> ttl > 30 * minute then (Inl ErrInvalid, db)
      else
        let stamp = (if at0 = 0 then clock else at0) in
        case sql_update (lease_check db) (renewable db requestID stamp) (\<lambda>l. l\<lparr>ls_expires := stamp + ttl\<rparr>) (leases db) of
          Inl e \<Rightarrow> (Inl e, db)
        | Inr (ls, n) \<Rightarrow> (if n = 0 then Inl ErrNotFound else Inr (), db\<lparr>leases := ls\<rparr>))"

definition GetQuotaCounters :: "quota_db \<Rightarrow> zoned \<Rightarrow> string \<Rightarrow> string \<Rightarrow> QuotaCounter list" where
  "GetQuotaCounters db day userID keyID =
     sort_key qc_ScopeType
       (filter (\<lambda>c. qc_Day c = calendar_day day \<and> in_scope keyID userID (qc_ScopeType c) (qc_ScopeID c)) (counters db))"

text \<open>\<open>billed\<close> tells for which requests a billing reservation is still open.\<close>

definition DeleteQuotaStateBefore :: "(string \<Rightarrow> bool) \<Rightarrow> zoned \<Rightarrow> quota_db \<Rightarrow> quota_db" where
  "DeleteQuotaStateBefore billed before db =
     db\<lparr>windows := sql_delete (\<lambda>w. rw_start w < fst before) (windows db),
        reservations := sql_delete (\<lambda>r. qr_State r \<noteq> ''reserved''
          \<and> (case qr_SettledAt r of None \<Rightarrow> False | Some t \<Rightarrow> t < fst before) \<and> \<not> billed (qr_RequestID r)) (reservations db),
        counters := sql_delete (\<lambda>c. qc_Day c < calendar_day before) (counters db)\<rparr>"

end
