(* ===== verification/Quota_Accounting.thy ===== *)
theory Quota_Accounting
  imports Quota
begin

text \<open>
  Why the daily counters of \<^verbatim>\<open>internal/store/quota.go\<close> stay exact: the invariant that ties them to the open
  reservations, one preservation lemma per statement and per operation, and the lemmas that a reserved
  request can always be closed.
\<close>

section \<open>Accounting\<close>

text \<open>
  The open reservations that a counter has to account for, and the balance the counter shows: requests reserved
  and not completed, and tokens reserved.
\<close>

definition charged_to :: "int \<times> string \<times> string \<Rightarrow> QuotaReservation \<Rightarrow> bool" where
  "charged_to k r = (k = (qr_Day r, ''key'', qr_APIKeyID r) \<or> k = (qr_Day r, ''user'', qr_UserID r))"

definition open_requests :: "int \<times> string \<times> string \<Rightarrow> QuotaReservation \<Rightarrow> int" where
  "open_requests k r = (if qr_State r = ''reserved'' \<and> charged_to k r then 1 else 0)"

definition open_tokens :: "int \<times> string \<times> string \<Rightarrow> QuotaReservation \<Rightarrow> int" where
  "open_tokens k r = (if qr_State r = ''reserved'' \<and> charged_to k r then qr_ReservedTokens r else 0)"

definition counter_at :: "quota_db \<Rightarrow> int \<times> string \<times> string \<Rightarrow> QuotaCounter option" where
  "counter_at db k = row_lookup counter_key k (counters db)"

definition request_balance :: "quota_db \<Rightarrow> int \<times> string \<times> string \<Rightarrow> int" where
  "request_balance db k = (case counter_at db k of None \<Rightarrow> 0 | Some c \<Rightarrow> RequestsReserved c - RequestsCompleted c)"

definition token_balance :: "quota_db \<Rightarrow> int \<times> string \<times> string \<Rightarrow> int" where
  "token_balance db k = (case counter_at db k of None \<Rightarrow> 0 | Some c \<Rightarrow> TokensReserved c)"

definition acct_ok :: "quota_db \<Rightarrow> bool" where
  "acct_ok db = (\<forall>k. request_balance db k = sum_list (map (open_requests k) (reservations db))
      \<and> token_balance db k = sum_list (map (open_tokens k) (reservations db)))"

definition tables_ok :: "quota_db \<Rightarrow> bool" where
  "tables_ok db =
     (distinct (quota_locks db) \<and> keys_unique window_key (windows db) \<and> keys_unique counter_key (counters db)
      \<and> keys_unique qr_RequestID (reservations db) \<and> keys_unique ls_request (leases db)
      \<and> (\<forall>w \<in> set (windows db). window_check w) \<and> (\<forall>c \<in> set (counters db). counter_check c)
      \<and> (\<forall>r \<in> set (reservations db). reservation_check db r) \<and> (\<forall>l \<in> set (leases db). lease_check db l))"

definition quota_inv :: "quota_db \<Rightarrow> bool" where
  "quota_inv db = (tables_ok db \<and> acct_ok db)"

lemma in_scope_key:
  "(qc_Day c = day \<and> p c \<and> in_scope keyID userID (qc_ScopeType c) (qc_ScopeID c)) =
   ((counter_key c = (day, ''key'', keyID) \<or> counter_key c = (day, ''user'', userID)) \<and> p c)"
  by (auto simp: in_scope_def)

lemma update_counters_effect:
  assumes uniq: "keys_unique counter_key (counters db)"
    and run: "update_counters day keyID userID p f db = Inr db'"
  defines "q \<equiv> \<lambda>c. (counter_key c = (day, ''key'', keyID) \<or> counter_key c = (day, ''user'', userID)) \<and> p c"
  obtains a b where "counter_at db (day, ''key'', keyID) = Some a" "p a"
    and "counter_at db (day, ''user'', userID) = Some b" "p b"
    and "db' = db\<lparr>counters := map (\<lambda>c. if q c then f c else c) (counters db)\<rparr>"
    and "\<forall>c \<in> set (counters db). q c \<longrightarrow> counter_check (f c)"
proof -
  have q: "(\<lambda>c. qc_Day c = day \<and> p c \<and> in_scope keyID userID (qc_ScopeType c) (qc_ScopeID c)) = q"
    unfolding q_def by (rule ext) (rule in_scope_key)
  have r: "andThen (sql_update counter_check q f (counters db))
      (\<lambda>(cs, n). andThen (requireExactlyAffected n 2) (\<lambda>_. Inr (db\<lparr>counters := cs\<rparr>))) = Inr db'"
    using run unfolding update_counters_def q .
  then have ok: "\<not> (\<exists>c \<in> set (counters db). q c \<and> \<not> counter_check (f c))"
    by (auto simp: sql_update_def split: if_splits)
  then have two: "length (filter q (counters db)) = 2"
    and db': "db' = db\<lparr>counters := map (\<lambda>c. if q c then f c else c) (counters db)\<rparr>"
    using r by (auto simp: sql_update_def requireExactlyAffected_def split: if_splits)
  have checks: "\<forall>c \<in> set (counters db). q c \<longrightarrow> counter_check (f c)" using ok by blast
  obtain a b where l: "row_lookup counter_key (day, ''key'', keyID) (counters db) = Some a" "p a"
    "row_lookup counter_key (day, ''user'', userID) (counters db) = Some b" "p b"
    by (rule two_rows_affected [OF uniq two [unfolded q_def]])
  show ?thesis by (rule that [OF l(1) [folded counter_at_def] l(2) l(3) [folded counter_at_def] l(4) db' checks])
qed

lemma update_counters_ok:
  assumes uniq: "keys_unique counter_key (counters db)"
    and a: "counter_at db (day, ''key'', keyID) = Some a" "p a" "counter_check (f a)"
    and b: "counter_at db (day, ''user'', userID) = Some b" "p b" "counter_check (f b)"
  shows "\<exists>db'. update_counters day keyID userID p f db = Inr db'"
proof -
  let ?q = "\<lambda>c. (counter_key c = (day, ''key'', keyID) \<or> counter_key c = (day, ''user'', userID)) \<and> p c"
  have q: "(\<lambda>c. qc_Day c = day \<and> p c \<and> in_scope keyID userID (qc_ScopeType c) (qc_ScopeID c)) = ?q"
    by (rule ext) (rule in_scope_key)
  have "counter_check (f c)" if "c \<in> set (counters db)" "?q c" for c
  proof -
    have c: "row_lookup counter_key (counter_key c) (counters db) = Some c" by (rule row_lookup_unique [OF uniq that(1)])
    from that(2) consider "counter_key c = (day, ''key'', keyID)" | "counter_key c = (day, ''user'', userID)" by blast
    then have "c = a \<or> c = b"
    proof cases
      case 1
      then show ?thesis using c a(1) by (simp only: counter_at_def option.inject simp_thms)
    next
      case 2
      then show ?thesis using c b(1) by (simp only: counter_at_def option.inject simp_thms)
    qed
    then show ?thesis using a(3) b(3) by blast
  qed
  then have ok: "\<not> (\<exists>c \<in> set (counters db). ?q c \<and> \<not> counter_check (f c))" by blast
  have two: "length (filter ?q (counters db)) = 2"
    by (rule filter_two_rows [OF uniq _ a(1) [unfolded counter_at_def] b(1) [unfolded counter_at_def] a(2) b(2)]) simp
  show ?thesis
    unfolding update_counters_def q sql_update_def if_not_P [OF ok] two by (simp add: requireExactlyAffected_def)
qed

text \<open>What an update of two counters does to a quantity read off them, zero for a missing counter.\<close>

definition measure_at :: "(QuotaCounter \<Rightarrow> int) \<Rightarrow> quota_db \<Rightarrow> int \<times> string \<times> string \<Rightarrow> int" where
  "measure_at m db k = (case counter_at db k of None \<Rightarrow> 0 | Some c \<Rightarrow> m c)"

lemma balance_measure:
  "request_balance db k = measure_at (\<lambda>c. RequestsReserved c - RequestsCompleted c) db k"
  "token_balance db k = measure_at TokensReserved db k"
  by (simp_all add: request_balance_def token_balance_def measure_at_def)

lemma update_counters_measure:
  assumes uniq: "keys_unique counter_key (counters db)"
    and run: "update_counters day keyID userID p f db = Inr db'"
    and key: "\<And>c. counter_key (f c) = counter_key c"
    and d: "\<And>c. m (f c) = m c + d"
  shows "measure_at m db' k = measure_at m db k + (if k \<in> {(day, ''key'', keyID), (day, ''user'', userID)} then d else 0)"
proof -
  let ?k1 = "(day, ''key'', keyID)" and ?k2 = "(day, ''user'', userID)"
  define q where "q = (\<lambda>c. (counter_key c = ?k1 \<or> counter_key c = ?k2) \<and> p c)"
  obtain a b where a: "counter_at db ?k1 = Some a" "p a" and b: "counter_at db ?k2 = Some b" "p b"
    and db': "db' = db\<lparr>counters := map (\<lambda>c. if q c then f c else c) (counters db)\<rparr>"
    unfolding q_def by (rule update_counters_effect [OF uniq run])
  have look: "counter_at db' k = map_option (\<lambda>c. if q c then f c else c) (counter_at db k)" for k
    unfolding counter_at_def db' using row_lookup_map [where key = counter_key and f = f, OF key] by simp
  have at_key: "counter_key c = k" if "counter_at db k = Some c" for c k
    using row_lookup_Some [OF that [unfolded counter_at_def]] by blast
  have qa: "q a" using at_key [OF a(1)] a(2) unfolding q_def by blast
  have qb: "q b" using at_key [OF b(1)] b(2) unfolding q_def by blast
  have other: "\<not> q c" if "counter_at db k = Some c" "k \<notin> {?k1, ?k2}" for c k
    using at_key [OF that(1)] that(2) unfolding q_def by blast
  show ?thesis
  proof (cases "k \<in> {?k1, ?k2}")
    case True
    then have "k = ?k1 \<or> k = ?k2" by (simp only: insert_iff empty_iff simp_thms)
    then obtain c where "counter_at db k = Some c" "q c" using a(1) b(1) qa qb by (elim disjE) (simp_all only:)
    then show ?thesis using True d by (simp add: measure_at_def look)
  next
    case False
    show ?thesis
    proof (cases "counter_at db k")
      case (Some c)
      then show ?thesis using False other [OF Some False] by (simp add: measure_at_def look)
    qed (use False in \<open>simp add: measure_at_def look\<close>)
  qed
qed

lemma update_counters_balance:
  assumes uniq: "keys_unique counter_key (counters db)"
    and run: "update_counters day keyID userID p f db = Inr db'"
    and key: "\<And>c. counter_key (f c) = counter_key c"
    and d1: "\<And>c. RequestsReserved (f c) - RequestsCompleted (f c) = RequestsReserved c - RequestsCompleted c + d1"
    and d2: "\<And>c. TokensReserved (f c) = TokensReserved c + d2"
  shows "request_balance db' k = request_balance db k + (if k \<in> {(day, ''key'', keyID), (day, ''user'', userID)} then d1 else 0)"
    and "token_balance db' k = token_balance db k + (if k \<in> {(day, ''key'', keyID), (day, ''user'', userID)} then d2 else 0)"
  unfolding balance_measure
  by (rule update_counters_measure [OF uniq run key], rule d1) (rule update_counters_measure [OF uniq run key], rule d2)

section \<open>Steps of the operations\<close>

lemma check_owners:
  "key_owners db' = key_owners db \<Longrightarrow> reservation_check db' = reservation_check db"
  "key_owners db' = key_owners db \<Longrightarrow> lease_check db' = lease_check db"
  by (rule ext, simp add: reservation_check_def, rule ext, simp add: lease_check_def)

text \<open>
  The three lock rows are always taken, and in the same order by every transaction.
\<close>

lemma three_in_order:
  fixes a b c :: "string \<times> string"
  assumes "set xs = {a, b, c}" and "distinct xs" and "fst a < fst b" and "fst b < fst c"
  shows "sort_key fst (sort_key snd xs) = [a, b, c]"
proof -
  let ?o = "sort_key fst (sort_key snd xs)"
  have so: "set ?o = {a, b, c}" "distinct ?o" "sorted (map fst ?o)" using assms(1,2) by simp_all
  have inj: "inj_on fst {a, b, c}" using assms(3,4) by (auto simp: inj_on_def)
  have "distinct (map fst ?o)" using so inj by (simp add: distinct_map)
  moreover have "set (map fst ?o) = set (map fst [a, b, c])" using so(1) by simp
  moreover have "sorted (map fst [a, b, c])" "distinct (map fst [a, b, c])" using assms(3,4) by auto
  ultimately have "map fst ?o = map fst [a, b, c]" using so(3) sorted_distinct_set_unique by blast
  then show ?thesis by (rule map_inj_on) (use so(1) inj in simp)
qed

lemma insert_ignore_set: "set (sql_insert_ignore (\<lambda>l. l) x rows) = insert x (set rows)"
  by (auto simp: sql_insert_ignore_def)

lemma insert_ignore_distinct: "distinct rows \<Longrightarrow> distinct (sql_insert_ignore (\<lambda>l. l) x rows)"
  by (auto simp: sql_insert_ignore_def)

lemma scope_order: "''global'' < ''key''" "''key'' < ''user''"
  by code_simp+

lemma lockQuotaScopes_ok:
  assumes "distinct (quota_locks db)"
  obtains ls where "lockQuotaScopes db userID keyID =
      Inr (db\<lparr>quota_locks := ls\<rparr>, [(''global'', ''global''), (''key'', keyID), (''user'', userID)])"
    and "distinct ls"
proof -
  define ls where "ls = fold (sql_insert_ignore (\<lambda>l. l)) [(''global'', ''global''), (''key'', keyID), (''user'', userID)] (quota_locks db)"
  let ?xs = "filter (wanted_lock userID keyID) ls"
  have d: "distinct ls" unfolding ls_def by (simp add: insert_ignore_distinct assms)
  have "set ls = {(''global'', ''global''), (''key'', keyID), (''user'', userID)} \<union> set (quota_locks db)"
    unfolding ls_def by (auto simp: insert_ignore_set)
  then have s: "set ?xs = {(''global'', ''global''), (''key'', keyID), (''user'', userID)}"
    by (auto simp: wanted_lock_def)
  have "sort_key fst (sort_key snd ?xs) = [(''global'', ''global''), (''key'', keyID), (''user'', userID)]"
    by (rule three_in_order [OF s]) (simp_all add: d scope_order)
  then have "lockQuotaScopes db userID keyID =
      Inr (db\<lparr>quota_locks := ls\<rparr>, [(''global'', ''global''), (''key'', keyID), (''user'', userID)])"
    unfolding lockQuotaScopes_def Let_def ls_def [symmetric] by simp
  then show ?thesis using that d by blast
qed

lemma locks_frame [simp]:
  "request_balance (db\<lparr>quota_locks := ls\<rparr>) k = request_balance db k" "token_balance (db\<lparr>quota_locks := ls\<rparr>) k = token_balance db k"
  "counter_at (db\<lparr>quota_locks := ls\<rparr>) k = counter_at db k"
  by (simp_all add: request_balance_def token_balance_def counter_at_def)

lemma locks_inv: "distinct ls \<Longrightarrow> quota_inv db \<Longrightarrow> quota_inv (db\<lparr>quota_locks := ls\<rparr>)"
  unfolding quota_inv_def tables_ok_def acct_ok_def
  using check_owners [of "db\<lparr>quota_locks := ls\<rparr>" db] by simp

lemma balance_cong:
  assumes "counters db' = counters db"
  shows "request_balance db' k = request_balance db k" "token_balance db' k = token_balance db k" "counter_at db' k = counter_at db k"
  using assms by (simp_all add: request_balance_def token_balance_def counter_at_def)

subsection \<open>Admission\<close>

lemma expire_leases_ok: "tables_ok db \<Longrightarrow> tables_ok (expire_leases p db)"
  unfolding tables_ok_def expire_leases_def sql_delete_def
  using check_owners [of "db\<lparr>leases := filter (\<lambda>l. \<not> ls_expires l \<le> fst (rq_Now p)) (leases db)\<rparr>" db]
  by (simp add: keys_unique_filter)

lemma window_start_aligned: "window_start p mod minute = 0"
  by (simp add: window_start_def time_truncate_def)

lemma add_windows_ok:
  assumes "tables_ok db"
  shows "tables_ok (add_windows p db)"
proof -
  have blank: "window_check (blank_window (window_start p) s i)" if "s \<in> {''user'', ''key''}" for s i
    using that window_start_aligned [of p] by (simp add: window_check_def blank_window_def int64_range_def)
  have u: "keys_unique window_key (windows (add_windows p db))"
    unfolding add_windows_def using assms by (simp add: tables_ok_def rows.insert_unique)
  have "\<forall>w \<in> set (windows (add_windows p db)). window_check w"
    unfolding add_windows_def sql_insert_ignore_def using assms blank by (auto simp: tables_ok_def)
  moreover have "key_owners (add_windows p db) = key_owners db" by (simp add: add_windows_def)
  ultimately show ?thesis
    using assms u check_owners [of "add_windows p db" db] unfolding tables_ok_def by (simp add: add_windows_def)
qed

lemma add_counters_ok:
  assumes "tables_ok db"
  shows "tables_ok (add_counters p db)"
    and "request_balance (add_counters p db) k = request_balance db k"
    and "token_balance (add_counters p db) k = token_balance db k"
proof -
  have blank: "counter_check (blank_counter d n s i)" if "s \<in> {''user'', ''key''}" for d n s i
    using that by (simp add: counter_check_def blank_counter_def int64_range_def)
  have u: "keys_unique counter_key (counters (add_counters p db))"
    unfolding add_counters_def Let_def using assms by (simp add: tables_ok_def rows.insert_unique)
  have "\<forall>c \<in> set (counters (add_counters p db)). counter_check c"
    unfolding add_counters_def Let_def sql_insert_ignore_def using assms blank by (auto simp: tables_ok_def)
  moreover have "key_owners (add_counters p db) = key_owners db" by (simp add: add_counters_def Let_def)
  ultimately show "tables_ok (add_counters p db)"
    using assms u check_owners [of "add_counters p db" db] unfolding tables_ok_def by (simp add: add_counters_def Let_def)
  have "counter_at (add_counters p db) k = counter_at db k
      \<or> counter_at db k = None \<and> (\<exists>d n s i. counter_at (add_counters p db) k = Some (blank_counter d n s i))"
    unfolding counter_at_def add_counters_def Let_def by (auto simp: rows.lookup_insert)
  then show "request_balance (add_counters p db) k = request_balance db k"
    and "token_balance (add_counters p db) k = token_balance db k"
    by (auto simp: request_balance_def token_balance_def blank_counter_def)
qed

lemma increment_windows_ok:
  assumes "tables_ok db" and "increment_windows p db = Inr db'"
  shows "tables_ok db'" and "\<exists>ws. db' = db\<lparr>windows := ws\<rparr>"
proof -
  let ?q = "\<lambda>w. rw_start w = window_start p \<and> in_scope (rq_APIKeyID p) (rq_UserID p) (rw_scope w) (rw_id w)"
  let ?f = "\<lambda>w. w\<lparr>request_count := request_count w + 1\<rparr>"
  have ok: "\<not> (\<exists>w \<in> set (windows db). ?q w \<and> \<not> window_check (?f w))"
    using assms(2) unfolding increment_windows_def sql_update_def by (auto split: if_splits)
  then have db': "db' = db\<lparr>windows := map (\<lambda>w. if ?q w then ?f w else w) (windows db)\<rparr>"
    using assms(2) unfolding increment_windows_def sql_update_def if_not_P [OF ok]
    by (simp add: requireExactlyAffected_def split: if_splits)
  then show "\<exists>ws. db' = db\<lparr>windows := ws\<rparr>" by blast
  have "keys_unique window_key (windows db')"
    unfolding db' using assms(1) keys_unique_map [of window_key ?f ?q "windows db"] by (simp add: tables_ok_def)
  moreover have "\<forall>w \<in> set (windows db'). window_check w" unfolding db' using assms(1) ok by (auto simp: tables_ok_def)
  moreover have "key_owners db' = key_owners db" by (simp add: db')
  ultimately show "tables_ok db'"
    using assms(1) check_owners [of db' db] unfolding tables_ok_def by (simp add: db')
qed

lemma update_counters_tables:
  assumes tab: "tables_ok db" and run: "update_counters day keyID userID p f db = Inr db'"
    and key: "\<And>c. counter_key (f c) = counter_key c"
  shows "tables_ok db'" and "\<exists>cs. db' = db\<lparr>counters := cs\<rparr>"
proof -
  define q where "q = (\<lambda>c. (counter_key c = (day, ''key'', keyID) \<or> counter_key c = (day, ''user'', userID)) \<and> p c)"
  have uniq: "keys_unique counter_key (counters db)" using tab by (simp add: tables_ok_def)
  obtain db'': "db' = db\<lparr>counters := map (\<lambda>c. if q c then f c else c) (counters db)\<rparr>"
    and ok: "\<forall>c \<in> set (counters db). q c \<longrightarrow> counter_check (f c)"
    unfolding q_def by (rule update_counters_effect [OF uniq run])
  then show "\<exists>cs. db' = db\<lparr>counters := cs\<rparr>" by blast
  have "keys_unique counter_key (counters db')"
    unfolding db'' using uniq keys_unique_map [where key = counter_key and f = f, OF key] by simp
  moreover have "\<forall>c \<in> set (counters db'). counter_check c" unfolding db'' using tab ok by (auto simp: tables_ok_def)
  moreover have "key_owners db' = key_owners db" by (simp add: db'')
  ultimately show "tables_ok db'" using tab check_owners [of db' db] unfolding tables_ok_def by (simp add: db'')
qed

lemma insert_reservation_ok:
  assumes "tables_ok db" and "insert_reservation p db = Inr db'"
  shows "tables_ok db'" and "db' = db\<lparr>reservations := reservations db @ [new_reservation p]\<rparr>"
proof -
  show db': "db' = db\<lparr>reservations := reservations db @ [new_reservation p]\<rparr>"
    using assms(2) unfolding insert_reservation_def sql_insert_def by (simp split: if_splits)
  have "reservation_check db (new_reservation p)" "qr_RequestID (new_reservation p) \<notin> qr_RequestID ` set (reservations db)"
    using assms(2) unfolding insert_reservation_def sql_insert_def by (simp_all split: if_splits)
  then show "tables_ok db'"
    using assms(1) check_owners [of db' db] unfolding tables_ok_def by (auto simp: db' keys_unique_def)
qed

lemma insert_lease_ok:
  assumes "tables_ok db" and "insert_lease p db = Inr db'"
  shows "tables_ok db'" and "db' = db\<lparr>leases := leases db @ [new_lease p]\<rparr>"
proof -
  show db': "db' = db\<lparr>leases := leases db @ [new_lease p]\<rparr>"
    using assms(2) unfolding insert_lease_def sql_insert_def by (simp split: if_splits)
  have "lease_check db (new_lease p)" "ls_request (new_lease p) \<notin> ls_request ` set (leases db)"
    using assms(2) unfolding insert_lease_def sql_insert_def by (simp_all split: if_splits)
  then show "tables_ok db'"
    using assms(1) check_owners [of db' db] unfolding tables_ok_def by (auto simp: db' keys_unique_def)
qed

text \<open>The states an admitted request passes through.\<close>

lemma reserve_chain:
  assumes "reserveQuotaLockedTx p db0 = Inr (r, db7)"
  obtains db4 db5 db6 where "enforce_concurrency p (expire_leases p db0) = Inr ()"
    and "enforce_rate p (add_windows p (expire_leases p db0)) = Inr ()"
    and "enforce_daily p (add_counters p (add_windows p (expire_leases p db0))) = Inr ()"
    and "increment_windows p (add_counters p (add_windows p (expire_leases p db0))) = Inr db4"
    and "update_counters (calendar_day (rq_Day p)) (rq_APIKeyID p) (rq_UserID p) (\<lambda>c. True) (reserve_counter p) db4 = Inr db5"
    and "insert_reservation p db5 = Inr db6" and "insert_lease p db6 = Inr db7" and "r = new_reservation p"
  using assms unfolding reserveQuotaLockedTx_def Let_def by (auto elim!: andThen_InrE)

lemma charged_new: "charged_to k (new_reservation p) =
    (k \<in> {(calendar_day (rq_Day p), ''key'', rq_APIKeyID p), (calendar_day (rq_Day p), ''user'', rq_UserID p)})"
  by (auto simp: charged_to_def new_reservation_def)

lemma reserve_keeps:
  assumes inv: "quota_inv db0" and run: "reserveQuotaLockedTx p db0 = Inr (r, db7)"
  shows "quota_inv db7"
    and "reservations db7 = reservations db0 @ [new_reservation p]"
    and "leases db7 = sql_delete (\<lambda>l. ls_expires l \<le> fst (rq_Now p)) (leases db0) @ [new_lease p]"
proof -
  let ?db1 = "expire_leases p db0"
  let ?db3 = "add_counters p (add_windows p ?db1)"
  let ?ks = "{(calendar_day (rq_Day p), ''key'', rq_APIKeyID p), (calendar_day (rq_Day p), ''user'', rq_UserID p)}"
  obtain db4 db5 db6 where w: "increment_windows p ?db3 = Inr db4"
    and c: "update_counters (calendar_day (rq_Day p)) (rq_APIKeyID p) (rq_UserID p) (\<lambda>c. True) (reserve_counter p) db4 = Inr db5"
    and i: "insert_reservation p db5 = Inr db6" and l: "insert_lease p db6 = Inr db7"
    by (rule reserve_chain [OF run])
  have t3: "tables_ok ?db3"
    using inv by (simp add: quota_inv_def expire_leases_ok add_windows_ok add_counters_ok(1))
  have t4: "tables_ok db4" by (rule increment_windows_ok(1) [OF t3 w])
  have key: "counter_key (reserve_counter p c) = counter_key c" for c by (simp add: reserve_counter_def)
  have t5: "tables_ok db5" by (rule update_counters_tables(1) [OF t4 c key])
  have t6: "tables_ok db6" by (rule insert_reservation_ok(1) [OF t5 i])
  have t7: "tables_ok db7" by (rule insert_lease_ok(1) [OF t6 l])
  obtain ws where d4: "db4 = ?db3\<lparr>windows := ws\<rparr>" using increment_windows_ok(2) [OF t3 w] by blast
  obtain cs where d5: "db5 = db4\<lparr>counters := cs\<rparr>" using update_counters_tables(2) [OF t4 c key] by blast
  note d6 = insert_reservation_ok(2) [OF t5 i] and d7 = insert_lease_ok(2) [OF t6 l]
  show res: "reservations db7 = reservations db0 @ [new_reservation p]"
    by (simp add: d7 d6 d5 d4 add_counters_def add_windows_def expire_leases_def Let_def)
  show "leases db7 = sql_delete (\<lambda>l. ls_expires l \<le> fst (rq_Now p)) (leases db0) @ [new_lease p]"
    by (simp add: d7 d6 d5 d4 add_counters_def add_windows_def expire_leases_def Let_def)
  have u4: "keys_unique counter_key (counters db4)" using t4 by (simp add: tables_ok_def)
  have b0: "request_balance db4 k = request_balance db0 k" "token_balance db4 k = token_balance db0 k" for k
  proof -
    have "counters db4 = counters ?db3" by (simp add: d4)
    moreover have "tables_ok (add_windows p ?db1)" using inv by (simp add: quota_inv_def expire_leases_ok add_windows_ok)
    moreover have "counters (add_windows p ?db1) = counters db0" by (simp add: add_windows_def expire_leases_def)
    ultimately show "request_balance db4 k = request_balance db0 k" "token_balance db4 k = token_balance db0 k"
      using balance_cong [of db4 ?db3 k] balance_cong [of "add_windows p ?db1" db0 k] add_counters_ok(2,3) by simp_all
  qed
  have c7: "counters db7 = counters db5" by (simp add: d7 d6)
  have b7: "request_balance db7 k = request_balance db0 k + (if k \<in> ?ks then 1 else 0)"
    "token_balance db7 k = token_balance db0 k + (if k \<in> ?ks then rq_ReservedTokens p else 0)" for k
    unfolding balance_cong [OF c7] b0 [symmetric]
    by (rule update_counters_balance [OF u4 c key]; simp add: reserve_counter_def)+
  have "open_requests k (new_reservation p) = (if k \<in> ?ks then 1 else 0)"
    "open_tokens k (new_reservation p) = (if k \<in> ?ks then rq_ReservedTokens p else 0)" for k
    unfolding open_requests_def open_tokens_def charged_new by (simp_all add: new_reservation_def)
  then have "acct_ok db7" using inv unfolding quota_inv_def acct_ok_def b7 res by simp
  then show "quota_inv db7" using t7 by (simp add: quota_inv_def)
qed

subsection \<open>Settlement and release\<close>

text \<open>
  Closing a reservation: the counters give up its request and its tokens and the row leaves the state
  \<^verbatim>\<open>reserved\<close>. Settlement and release differ in the functions applied to the rows.
\<close>

lemma finish_reservation_ok:
  assumes tab: "tables_ok db" and run: "finish_reservation requestID f db = Inr db'"
    and key: "\<And>r. qr_RequestID (f r) = qr_RequestID r"
  shows "tables_ok db'"
    and "db' = db\<lparr>reservations := map (\<lambda>r. if qr_RequestID r = requestID then f r else r) (reservations db),
                  leases := sql_delete (\<lambda>l. ls_request l = requestID) (leases db)\<rparr>"
proof -
  have ok: "\<not> (\<exists>r \<in> set (reservations db). qr_RequestID r = requestID \<and> \<not> reservation_check db (f r))"
    using run unfolding finish_reservation_def sql_update_def by (auto split: if_splits)
  show db': "db' = db\<lparr>reservations := map (\<lambda>r. if qr_RequestID r = requestID then f r else r) (reservations db),
                  leases := sql_delete (\<lambda>l. ls_request l = requestID) (leases db)\<rparr>"
    using run unfolding finish_reservation_def sql_update_def if_not_P [OF ok] by simp
  have "keys_unique qr_RequestID (reservations db')"
    unfolding db' using tab keys_unique_map [where key = qr_RequestID and f = f, OF key] by (simp add: tables_ok_def)
  moreover have "\<forall>r \<in> set (reservations db'). reservation_check db r" unfolding db' using tab ok by (auto simp: tables_ok_def)
  moreover have "key_owners db' = key_owners db" by (simp add: db')
  ultimately show "tables_ok db'"
    using tab check_owners [of db' db] unfolding tables_ok_def
    by (simp add: db' sql_delete_def keys_unique_filter)
qed

lemma close_keeps:
  assumes inv: "quota_inv db" and r: "row_lookup qr_RequestID requestID (reservations db) = Some r" "qr_State r = ''reserved''"
    and upd: "update_counters (qr_Day r) (qr_APIKeyID r) (qr_UserID r) p f db = Inr db1"
    and fin: "finish_reservation requestID g db1 = Inr db2"
    and f: "\<And>c. counter_key (f c) = counter_key c"
      "\<And>c. RequestsReserved (f c) - RequestsCompleted (f c) = RequestsReserved c - RequestsCompleted c + - 1"
      "\<And>c. TokensReserved (f c) = TokensReserved c + - qr_ReservedTokens r"
    and g: "\<And>r. qr_RequestID (g r) = qr_RequestID r" "qr_State (g r) \<noteq> ''reserved''"
  shows "quota_inv db2"
proof -
  let ?ks = "{(qr_Day r, ''key'', qr_APIKeyID r), (qr_Day r, ''user'', qr_UserID r)}"
  have tab: "tables_ok db" and acct: "acct_ok db" using inv by (simp_all add: quota_inv_def)
  have u: "keys_unique counter_key (counters db)" "keys_unique qr_RequestID (reservations db)" using tab by (simp_all add: tables_ok_def)
  have t1: "tables_ok db1" by (rule update_counters_tables(1) [OF tab upd f(1)])
  obtain cs where d1: "db1 = db\<lparr>counters := cs\<rparr>" using update_counters_tables(2) [OF tab upd f(1)] by blast
  have t2: "tables_ok db2" by (rule finish_reservation_ok(1) [OF t1 fin g(1)])
  note d2 = finish_reservation_ok(2) [OF t1 fin g(1)]
  have "counters db2 = counters db1" by (simp add: d2)
  note b = update_counters_balance [OF u(1) upd f, folded balance_cong [OF this]]
  have res: "reservations db2 = map (\<lambda>r. if qr_RequestID r = requestID then g r else r) (reservations db)"
    by (simp add: d2 d1)
  have ks: "charged_to k r = (k \<in> ?ks)" for k by (auto simp: charged_to_def)
  have "sum_list (map (open_requests k) (reservations db2)) =
      sum_list (map (open_requests k) (reservations db)) + (if k \<in> ?ks then - 1 else 0)" for k
    unfolding res sum_row_update [OF u(2) r(1)] open_requests_def ks using r(2) g(2) by simp
  moreover have "sum_list (map (open_tokens k) (reservations db2)) =
      sum_list (map (open_tokens k) (reservations db)) + (if k \<in> ?ks then - qr_ReservedTokens r else 0)" for k
    unfolding res sum_row_update [OF u(2) r(1)] open_tokens_def ks using r(2) g(2) by simp
  ultimately have "acct_ok db2" using acct unfolding acct_ok_def b by simp
  then show ?thesis using t2 by (simp add: quota_inv_def)
qed

lemma open_counter:
  assumes inv: "quota_inv db" and r: "row_lookup qr_RequestID requestID (reservations db) = Some r" "qr_State r = ''reserved''"
    and k: "charged_to k r"
  obtains c where "counter_at db k = Some c" and "counter_check c"
    and "RequestsCompleted c < RequestsReserved c" and "qr_ReservedTokens r \<le> TokensReserved c"
proof -
  have acct: "request_balance db k = sum_list (map (open_requests k) (reservations db))"
    "token_balance db k = sum_list (map (open_tokens k) (reservations db))"
    using inv unfolding quota_inv_def acct_ok_def by blast+
  have mem: "r \<in> set (reservations db)" using row_lookup_Some [OF r(1)] by simp
  have nonneg: "0 \<le> qr_ReservedTokens x" if "x \<in> set (reservations db)" for x
    using inv that by (auto simp: quota_inv_def tables_ok_def reservation_check_def)
  have "open_requests k r \<le> request_balance db k"
    unfolding acct by (rule sum_row_member [OF mem]) (simp add: open_requests_def)
  then have 1: "1 \<le> request_balance db k" using r(2) k by (simp add: open_requests_def)
  have "open_tokens k r \<le> token_balance db k"
    unfolding acct by (rule sum_row_member [OF mem]) (simp add: open_tokens_def nonneg)
  then have 2: "qr_ReservedTokens r \<le> token_balance db k" using r(2) k by (simp add: open_tokens_def)
  obtain c where c: "counter_at db k = Some c" using 1 by (auto simp: request_balance_def split: option.splits)
  have "c \<in> set (counters db)" using row_lookup_Some [OF c [unfolded counter_at_def]] by simp
  then have "counter_check c" using inv by (simp add: quota_inv_def tables_ok_def)
  then show ?thesis using that [OF c] 1 2 by (simp add: request_balance_def token_balance_def c)
qed

lemma settleQuotaTx_keeps:
  assumes inv: "quota_inv db" and run: "settleQuotaTx requestID actual stamp db = Inr db'"
  shows "quota_inv db'"
proof -
  obtain r where r: "row_lookup qr_RequestID requestID (reservations db) = Some r"
    using run unfolding settleQuotaTx_def readReservation_def by (auto split: option.splits)
  have "reservation_check db r" using inv row_lookup_Some [OF r] by (auto simp: quota_inv_def tables_ok_def)
  then consider "qr_State r = ''settled''" | "qr_State r = ''released''" | "qr_State r = ''reserved''"
    by (auto simp: reservation_check_def)
  then show ?thesis
  proof cases
    case 3
    then obtain db1 where u: "update_counters (qr_Day r) (qr_APIKeyID r) (qr_UserID r) (\<lambda>c. TokensReserved c \<ge> qr_ReservedTokens r)
          (settle_counter (qr_ReservedTokens r) actual stamp) db = Inr db1"
      and fin: "finish_reservation requestID
          (\<lambda>r. r\<lparr>qr_State := ''settled'', qr_ActualTokens := Some actual, qr_SettledAt := Some stamp\<rparr>) db1 = Inr db'"
      using run r unfolding settleQuotaTx_def readReservation_def by (auto elim!: andThen_InrE)
    show ?thesis by (rule close_keeps [OF inv r 3 u fin]) (simp_all add: settle_counter_def)
  qed (use run r inv in \<open>auto simp: settleQuotaTx_def readReservation_def split: if_splits\<close>)
qed

lemma releaseQuotaTx_keeps:
  assumes inv: "quota_inv db" and run: "releaseQuotaTx requestID stamp db = Inr db'"
  shows "quota_inv db'"
proof -
  obtain r where r: "row_lookup qr_RequestID requestID (reservations db) = Some r"
    using run unfolding releaseQuotaTx_def readReservation_def by (auto split: option.splits)
  have "reservation_check db r" using inv row_lookup_Some [OF r] by (auto simp: quota_inv_def tables_ok_def)
  then consider "qr_State r = ''settled''" | "qr_State r = ''released''" | "qr_State r = ''reserved''"
    by (auto simp: reservation_check_def)
  then show ?thesis
  proof cases
    case 3
    then obtain db1 where u: "update_counters (qr_Day r) (qr_APIKeyID r) (qr_UserID r)
          (\<lambda>c. RequestsReserved c > 0 \<and> TokensReserved c \<ge> qr_ReservedTokens r)
          (release_counter (qr_ReservedTokens r) stamp) db = Inr db1"
      and fin: "finish_reservation requestID (\<lambda>r. r\<lparr>qr_State := ''released'', qr_SettledAt := Some stamp\<rparr>) db1 = Inr db'"
      using run r unfolding releaseQuotaTx_def readReservation_def by (auto elim!: andThen_InrE)
    show ?thesis by (rule close_keeps [OF inv r 3 u fin]) (simp_all add: release_counter_def)
  qed (use run r inv in \<open>auto simp: releaseQuotaTx_def readReservation_def split: if_splits\<close>)
qed

text \<open>The closing transactions of a reserved request always find their two counters.\<close>

lemma finish_succeeds:
  assumes tab: "tables_ok db" and r: "row_lookup qr_RequestID requestID (reservations db) = Some r"
    and ok: "reservation_check db (g r)"
  shows "\<exists>db'. finish_reservation requestID g db = Inr db'"
proof -
  have uniq: "keys_unique qr_RequestID (reservations db)" using tab by (simp add: tables_ok_def)
  have "x = r" if "x \<in> set (reservations db)" "qr_RequestID x = requestID" for x
    using row_lookup_unique [OF uniq that(1)] that(2) r by simp
  then have "\<not> (\<exists>x \<in> set (reservations db). qr_RequestID x = requestID \<and> \<not> reservation_check db (g x))" using ok by blast
  then show ?thesis unfolding finish_reservation_def sql_update_def by simp
qed

definition has_room :: "quota_db \<Rightarrow> int \<times> string \<times> string \<Rightarrow> int \<Rightarrow> bool" where
  "has_room db k n = (case counter_at db k of None \<Rightarrow> True | Some c \<Rightarrow> TokensUsed c + n < 2 ^ 63)"

lemma charged_own:
  "charged_to (qr_Day r, ''key'', qr_APIKeyID r) r" "charged_to (qr_Day r, ''user'', qr_UserID r) r"
  by (simp_all add: charged_to_def)

lemma settleQuotaTx_succeeds:
  assumes inv: "quota_inv db" and r: "row_lookup qr_RequestID requestID (reservations db) = Some r" "qr_State r = ''reserved''"
    and n: "0 \<le> actual" "actual < 2 ^ 63"
    and room: "has_room db (qr_Day r, ''key'', qr_APIKeyID r) actual" "has_room db (qr_Day r, ''user'', qr_UserID r) actual"
  shows "\<exists>db'. settleQuotaTx requestID actual stamp db = Inr db'"
proof -
  let ?f = "settle_counter (qr_ReservedTokens r) actual stamp"
  let ?g = "\<lambda>r. r\<lparr>qr_State := ''settled'', qr_ActualTokens := Some actual, qr_SettledAt := Some stamp\<rparr>"
  have tab: "tables_ok db" using inv by (simp add: quota_inv_def)
  have uniq: "keys_unique counter_key (counters db)" using tab by (simp add: tables_ok_def)
  have rc: "reservation_check db r" using tab row_lookup_Some [OF r(1)] by (auto simp: tables_ok_def)
  have check: "counter_check (?f c)"
    if "counter_check c" "RequestsCompleted c < RequestsReserved c" "qr_ReservedTokens r \<le> TokensReserved c" "TokensUsed c + actual < 2 ^ 63" for c
    using that n(1) rc by (auto simp: counter_check_def settle_counter_def int64_range_def reservation_check_def)
  obtain a where a: "counter_at db (qr_Day r, ''key'', qr_APIKeyID r) = Some a" "counter_check a"
    "RequestsCompleted a < RequestsReserved a" "qr_ReservedTokens r \<le> TokensReserved a"
    by (rule open_counter [OF inv r charged_own(1)])
  obtain b where b: "counter_at db (qr_Day r, ''user'', qr_UserID r) = Some b" "counter_check b"
    "RequestsCompleted b < RequestsReserved b" "qr_ReservedTokens r \<le> TokensReserved b"
    by (rule open_counter [OF inv r charged_own(2)])
  obtain db1 where u: "update_counters (qr_Day r) (qr_APIKeyID r) (qr_UserID r) (\<lambda>c. TokensReserved c \<ge> qr_ReservedTokens r) ?f db = Inr db1"
    using update_counters_ok [OF uniq a(1,4) _ b(1,4), of ?f] check a b room by (auto simp: has_room_def)
  have t1: "tables_ok db1" by (rule update_counters_tables(1) [OF tab u]) (simp add: settle_counter_def)
  obtain cs where d1: "db1 = db\<lparr>counters := cs\<rparr>"
    using update_counters_tables(2) [OF tab u] by (auto simp: settle_counter_def)
  have r1: "row_lookup qr_RequestID requestID (reservations db1) = Some r" using r(1) by (simp add: d1)
  have "reservation_check db1 (?g r)" using rc n by (simp add: reservation_check_def d1 int64_range_def)
  then obtain db2 where "finish_reservation requestID ?g db1 = Inr db2" using finish_succeeds [OF t1 r1, of ?g] by blast
  then show ?thesis using r u by (simp add: settleQuotaTx_def readReservation_def)
qed

lemma releaseQuotaTx_succeeds:
  assumes inv: "quota_inv db" and r: "row_lookup qr_RequestID requestID (reservations db) = Some r" "qr_State r = ''reserved''"
  shows "\<exists>db'. releaseQuotaTx requestID stamp db = Inr db'"
proof -
  let ?f = "release_counter (qr_ReservedTokens r) stamp"
  let ?g = "\<lambda>r. r\<lparr>qr_State := ''released'', qr_SettledAt := Some stamp\<rparr>"
  let ?p = "\<lambda>c. RequestsReserved c > 0 \<and> TokensReserved c \<ge> qr_ReservedTokens r"
  have tab: "tables_ok db" using inv by (simp add: quota_inv_def)
  have uniq: "keys_unique counter_key (counters db)" using tab by (simp add: tables_ok_def)
  have rc: "reservation_check db r" using tab row_lookup_Some [OF r(1)] by (auto simp: tables_ok_def)
  have check: "counter_check (?f c) \<and> ?p c"
    if "counter_check c" "RequestsCompleted c < RequestsReserved c" "qr_ReservedTokens r \<le> TokensReserved c" for c
    using that rc by (auto simp: counter_check_def release_counter_def int64_range_def reservation_check_def)
  obtain a where a: "counter_at db (qr_Day r, ''key'', qr_APIKeyID r) = Some a" "counter_check (?f a) \<and> ?p a"
    by (rule open_counter [OF inv r charged_own(1)]) (use check in metis)
  obtain b where b: "counter_at db (qr_Day r, ''user'', qr_UserID r) = Some b" "counter_check (?f b) \<and> ?p b"
    by (rule open_counter [OF inv r charged_own(2)]) (use check in metis)
  obtain db1 where u: "update_counters (qr_Day r) (qr_APIKeyID r) (qr_UserID r) ?p ?f db = Inr db1"
    using update_counters_ok [OF uniq a(1) conjunct2 [OF a(2)] conjunct1 [OF a(2)] b(1) conjunct2 [OF b(2)] conjunct1 [OF b(2)]]
    by blast
  have t1: "tables_ok db1" by (rule update_counters_tables(1) [OF tab u]) (simp add: release_counter_def)
  obtain cs where d1: "db1 = db\<lparr>counters := cs\<rparr>"
    using update_counters_tables(2) [OF tab u] by (auto simp: release_counter_def)
  have r1: "row_lookup qr_RequestID requestID (reservations db1) = Some r" using r(1) by (simp add: d1)
  have "reservation_check db1 (?g r)" using rc r(2) by (simp add: reservation_check_def d1)
  then obtain db2 where "finish_reservation requestID ?g db1 = Inr db2" using finish_succeeds [OF t1 r1, of ?g] by blast
  then show ?thesis using r u by (simp add: releaseQuotaTx_def readReservation_def)
qed

section \<open>Runs of operations\<close>

datatype quota_op =
    OpReserve timestamp ReserveQuotaParams
  | OpSettle timestamp string go_int64 timestamp
  | OpRelease timestamp string timestamp
  | OpRenew timestamp string timestamp duration

fun quota_step :: "quota_db \<Rightarrow> quota_op \<Rightarrow> quota_db" where
  "quota_step db (OpReserve clock p) = snd (ReserveQuota clock p db)"
| "quota_step db (OpSettle clock requestID actual at0) = snd (SettleQuota clock requestID actual at0 db)"
| "quota_step db (OpRelease clock requestID at0) = snd (ReleaseQuota clock requestID at0 db)"
| "quota_step db (OpRenew clock requestID at0 ttl) = snd (RenewQuotaLease clock requestID at0 ttl db)"

lemma withTx_keeps:
  assumes "P db" and "\<And>x db'. body db = Inr (x, db') \<Longrightarrow> P db'"
  shows "P (snd (withTx body db))"
  using assms by (auto simp: withTx_def split: sum.splits)

lemma quota_inv_locks: "quota_inv db \<Longrightarrow> distinct (quota_locks db)"
  by (simp add: quota_inv_def tables_ok_def)

lemma locked_by_reservation_run:
  assumes inv: "quota_inv db" and run: "locked_by_reservation requestID body db = Inr (x, db2)"
  obtains ls where "distinct ls" and "body (db\<lparr>quota_locks := ls\<rparr>) = Inr db2"
proof -
  obtain pre where "readReservation db requestID = Inr pre"
    and r: "andThen (lockQuotaScopes db (qr_UserID pre) (qr_APIKeyID pre))
         (\<lambda>(db1, locked). andThen (body db1) (\<lambda>db2. Inr ((), db2))) = Inr (x, db2)"
    using run unfolding locked_by_reservation_def by (rule andThen_InrE)
  show ?thesis
    by (rule lockQuotaScopes_ok [OF quota_inv_locks [OF inv], of "qr_UserID pre" "qr_APIKeyID pre"])
      (use r that in \<open>auto simp: andThen_Inr\<close>)
qed

lemma renew_keeps:
  assumes "quota_inv db"
  shows "quota_inv (snd (RenewQuotaLease clock requestID at0 ttl db))"
proof (cases "ttl \<le> 0 \<or> ttl > 30 * minute")
  case True
  then show ?thesis using assms by (auto simp: RenewQuotaLease_def)
next
  case False
  define stamp where "stamp = (if at0 = 0 then clock else at0)"
  let ?q = "renewable db requestID stamp" and ?f = "\<lambda>l. l\<lparr>ls_expires := stamp + ttl\<rparr>"
  show ?thesis
  proof (cases "\<exists>l \<in> set (leases db). ?q l \<and> \<not> lease_check db (?f l)")
    case True
    then have "snd (RenewQuotaLease clock requestID at0 ttl db) = db"
      unfolding RenewQuotaLease_def if_not_P [OF False] Let_def stamp_def [symmetric] sql_update_def if_P [OF True] by simp
    then show ?thesis using assms by simp
  next
    case ok: False
    let ?db = "db\<lparr>leases := map (\<lambda>l. if ?q l then ?f l else l) (leases db)\<rparr>"
    have run: "snd (RenewQuotaLease clock requestID at0 ttl db) = ?db"
      unfolding RenewQuotaLease_def if_not_P [OF False] Let_def stamp_def [symmetric] sql_update_def if_not_P [OF ok] by simp
    have "keys_unique ls_request (leases ?db)"
      using assms keys_unique_map [of ls_request ?f ?q "leases db"] by (simp add: quota_inv_def tables_ok_def)
    moreover have "\<forall>l \<in> set (leases ?db). lease_check db l" using assms ok by (auto simp: quota_inv_def tables_ok_def)
    ultimately have "tables_ok ?db"
      using assms check_owners [of ?db db] unfolding quota_inv_def tables_ok_def by simp
    moreover have "acct_ok ?db" using assms balance_cong [of ?db db] unfolding quota_inv_def acct_ok_def by simp
    ultimately show ?thesis unfolding run by (simp add: quota_inv_def)
  qed
qed

lemma reserve_run:
  assumes inv: "quota_inv db" and run: "reserveQuotaTx p db = Inr (r, db')"
  obtains ls where "distinct ls" and "reserveQuotaLockedTx p (db\<lparr>quota_locks := ls\<rparr>) = Inr (r, db')"
  by (rule lockQuotaScopes_ok [OF quota_inv_locks [OF inv], of "rq_UserID p" "rq_APIKeyID p"])
    (use run that in \<open>auto simp: reserveQuotaTx_def\<close>)

lemma quota_step_inv: "quota_inv db \<Longrightarrow> quota_inv (quota_step db op)"
proof (cases op)
  case (OpReserve clock p)
  assume inv: "quota_inv db"
  have "quota_inv db'" if run: "reserveQuotaTx p' db = Inr (r, db')" for p' r db'
    by (rule reserve_run [OF inv run]) (rule reserve_keeps(1) [OF locks_inv [OF _ inv]])
  then show ?thesis using inv
    by (auto simp: OpReserve ReserveQuota_def split: sum.splits intro: withTx_keeps [where P = quota_inv])
next
  case (OpSettle clock requestID actual at0)
  assume inv: "quota_inv db"
  have "quota_inv db'" if run: "locked_by_reservation requestID (settleQuotaTx requestID actual stamp) db = Inr (x, db')" for x db' stamp
    by (rule locked_by_reservation_run [OF inv run]) (rule settleQuotaTx_keeps [OF locks_inv [OF _ inv]])
  then show ?thesis using inv
    by (auto simp: OpSettle SettleQuota_def intro: withTx_keeps [where P = quota_inv])
next
  case (OpRelease clock requestID at0)
  assume inv: "quota_inv db"
  have "quota_inv db'" if run: "locked_by_reservation requestID (releaseQuotaTx requestID stamp) db = Inr (x, db')" for x db' stamp
    by (rule locked_by_reservation_run [OF inv run]) (rule releaseQuotaTx_keeps [OF locks_inv [OF _ inv]])
  then show ?thesis using inv
    by (auto simp: OpRelease ReleaseQuota_def intro: withTx_keeps [where P = quota_inv])
qed (simp add: renew_keeps)

end
