(* ===== verification/Quota_Properties.thy ===== *)
theory Quota_Properties
  imports Quota_Accounting
begin

text \<open>
  What the quota operations promise: limits after an admission, the finality of a settlement, the round trip of
  admission and release, the lock order and the retention clean-up.
\<close>

section \<open>Limits\<close>

definition window_count :: "quota_db \<Rightarrow> timestamp \<times> string \<times> string \<Rightarrow> int" where
  "window_count db k = (case row_lookup window_key k (windows db) of None \<Rightarrow> 0 | Some w \<Rightarrow> request_count w)"

definition reserved_count :: "quota_db \<Rightarrow> int \<times> string \<times> string \<Rightarrow> int" where
  "reserved_count db k = (case counter_at db k of None \<Rightarrow> 0 | Some c \<Rightarrow> RequestsReserved c)"

text \<open>A limit of zero means no limit.\<close>

definition below :: "int \<Rightarrow> int \<Rightarrow> bool" where
  "below lmt n = (lmt = 0 \<or> n \<le> lmt)"

lemma enforceQuota_below:
  "enforceQuota scope dimension lmt current 1 retry = Inr u \<Longrightarrow> int64_range (current + 1) \<Longrightarrow> below lmt (current + 1)"
  by (auto simp: enforceQuota_def below_def int64_range_def wrap64_id split: if_splits)

lemma live_leases_admit:
  assumes "fst (rq_Now p) < ls_expires (new_lease p)"
    and "leases db' = sql_delete (\<lambda>l. ls_expires l \<le> fst (rq_Now p)) (leases db) @ [new_lease p]"
  shows "live_leases q (fst (rq_Now p)) db' =
    live_leases q (fst (rq_Now p)) (expire_leases p db) + (if q (new_lease p) then 1 else 0)"
  using assms by (simp add: live_leases_def expire_leases_def sql_delete_def)

lemma concurrency_below:
  assumes "enforce_concurrency p (expire_leases p db) = Inr ()" and "int (length (leases db)) + 1 < 2 ^ 63"
    and "fst (rq_Now p) < ls_expires (new_lease p)"
    and "leases db' = sql_delete (\<lambda>l. ls_expires l \<le> fst (rq_Now p)) (leases db) @ [new_lease p]"
  shows "below (KeyConcurrent (rq_Limits p)) (int (live_leases (\<lambda>x. ls_key x = rq_APIKeyID p) (fst (rq_Now p)) db'))
    \<and> below (UserConcurrent (rq_Limits p)) (int (live_leases (\<lambda>x. ls_user x = rq_UserID p) (fst (rq_Now p)) db'))
    \<and> below (GlobalConcurrent (rq_Limits p)) (int (live_leases (\<lambda>x. True) (fst (rq_Now p)) db'))"
proof -
  have small: "int64_range (int (live_leases q (fst (rq_Now p)) (expire_leases p db)) + 1)" for q
  proof -
    have "live_leases q (fst (rq_Now p)) (expire_leases p db) \<le> length (leases db)"
      unfolding live_leases_def expire_leases_def sql_delete_def by (auto intro: order_trans [OF length_filter_le])
    then show ?thesis using assms(2) by (simp add: int64_range_def)
  qed
  have steps: "enforceQuota ''key'' ''concurrency'' (KeyConcurrent (rq_Limits p))
        (int (live_leases (\<lambda>x. ls_key x = rq_APIKeyID p) (fst (rq_Now p)) (expire_leases p db))) 1 second = Inr ()"
    "enforceQuota ''user'' ''concurrency'' (UserConcurrent (rq_Limits p))
        (int (live_leases (\<lambda>x. ls_user x = rq_UserID p) (fst (rq_Now p)) (expire_leases p db))) 1 second = Inr ()"
    "enforceQuota ''global'' ''concurrency'' (GlobalConcurrent (rq_Limits p))
        (int (live_leases (\<lambda>x. True) (fst (rq_Now p)) (expire_leases p db))) 1 second = Inr ()"
    using assms(1) unfolding enforce_concurrency_def Let_def by (auto simp: andThen_Inr)
  have own: "ls_key (new_lease p) = rq_APIKeyID p" "ls_user (new_lease p) = rq_UserID p" by (simp_all add: new_lease_def)
  show ?thesis
    using enforceQuota_below [OF steps(1) small] enforceQuota_below [OF steps(2) small] enforceQuota_below [OF steps(3) small]
    by (simp add: live_leases_admit [OF assms(3,4)] own add.commute)
qed

lemma readRateCounts_rows:
  assumes "readRateCounts db start userID keyID = Inr (a, b)" and uniq: "keys_unique window_key (windows db)"
  obtains k u where "row_lookup window_key (start, ''key'', keyID) (windows db) = Some k" "request_count k = a"
    and "row_lookup window_key (start, ''user'', userID) (windows db) = Some u" "request_count u = b"
proof -
  let ?rows = "filter (\<lambda>w. rw_start w = start \<and> in_scope keyID userID (rw_scope w) (rw_id w)) (windows db)"
  obtain k u where k: "scope_entry rw_scope ''key'' ?rows = Some k" "request_count k = a"
    and u: "scope_entry rw_scope ''user'' ?rows = Some u" "request_count u = b"
    using assms(1) unfolding readRateCounts_def Let_def by (auto split: option.splits)
  have "k \<in> set ?rows" "rw_scope k = ''key''" "u \<in> set ?rows" "rw_scope u = ''user''"
    using row_lookup_Some [OF k(1) [unfolded scope_entry_def]] row_lookup_Some [OF u(1) [unfolded scope_entry_def]] by auto
  then have "k \<in> set (windows db)" "window_key k = (start, ''key'', keyID)"
    "u \<in> set (windows db)" "window_key u = (start, ''user'', userID)" by (auto simp: in_scope_def)
  then show ?thesis using that [of k u] k(2) u(2) row_lookup_unique [OF uniq, of k] row_lookup_unique [OF uniq, of u] by simp
qed

lemma readQuotaSnapshots_rows:
  assumes "readQuotaSnapshots db day userID keyID = Inr (a, b)" and uniq: "keys_unique counter_key (counters db)"
  obtains k u where "counter_at db (day, ''key'', keyID) = Some k" "RequestsReserved k = a"
    and "counter_at db (day, ''user'', userID) = Some u" "RequestsReserved u = b"
proof -
  let ?rows = "filter (\<lambda>c. qc_Day c = day \<and> in_scope keyID userID (qc_ScopeType c) (qc_ScopeID c)) (counters db)"
  obtain k u where k: "scope_entry qc_ScopeType ''key'' ?rows = Some k" "RequestsReserved k = a"
    and u: "scope_entry qc_ScopeType ''user'' ?rows = Some u" "RequestsReserved u = b"
    using assms(1) unfolding readQuotaSnapshots_def Let_def by (auto split: option.splits)
  have "k \<in> set ?rows" "qc_ScopeType k = ''key''" "u \<in> set ?rows" "qc_ScopeType u = ''user''"
    using row_lookup_Some [OF k(1) [unfolded scope_entry_def]] row_lookup_Some [OF u(1) [unfolded scope_entry_def]] by auto
  then have "k \<in> set (counters db)" "counter_key k = (day, ''key'', keyID)"
    "u \<in> set (counters db)" "counter_key u = (day, ''user'', userID)" by (auto simp: in_scope_def)
  then show ?thesis
    using that [of k u] k(2) u(2) row_lookup_unique [OF uniq, of k] row_lookup_unique [OF uniq, of u] by (simp add: counter_at_def)
qed

lemma window_count_increment:
  assumes tab: "tables_ok db" and run: "increment_windows p db = Inr db'"
    and row: "row_lookup window_key (window_start p, s, i) (windows db) = Some w" and s: "in_scope (rq_APIKeyID p) (rq_UserID p) s i"
  shows "window_count db' (window_start p, s, i) = request_count w + 1" and "int64_range (request_count w + 1)"
proof -
  let ?q = "\<lambda>w. rw_start w = window_start p \<and> in_scope (rq_APIKeyID p) (rq_UserID p) (rw_scope w) (rw_id w)"
  let ?f = "\<lambda>w. w\<lparr>request_count := request_count w + 1\<rparr>"
  have ok: "\<not> (\<exists>w \<in> set (windows db). ?q w \<and> \<not> window_check (?f w))"
    using run unfolding increment_windows_def sql_update_def by (auto split: if_splits)
  then have db': "db' = db\<lparr>windows := map (\<lambda>w. if ?q w then ?f w else w) (windows db)\<rparr>"
    using run unfolding increment_windows_def sql_update_def if_not_P [OF ok]
    by (simp add: requireExactlyAffected_def split: if_splits)
  have w: "w \<in> set (windows db)" "?q w" using row_lookup_Some [OF row] s by auto
  then have "window_check (?f w)" using ok by blast
  then show "int64_range (request_count w + 1)" by (simp add: window_check_def)
  have "row_lookup window_key (window_start p, s, i) (windows db') = Some (?f w)"
    using row_lookup_map [of window_key ?f "(window_start p, s, i)" ?q "windows db"] row w(2) by (simp add: db')
  then show "window_count db' (window_start p, s, i) = request_count w + 1" by (simp add: window_count_def)
qed

lemma reserved_count_increment:
  assumes tab: "tables_ok db"
    and run: "update_counters day keyID userID (\<lambda>c. True) (reserve_counter p) db = Inr db'"
    and row: "counter_at db k = Some c" and k: "k \<in> {(day, ''key'', keyID), (day, ''user'', userID)}"
  shows "reserved_count db' k = RequestsReserved c + 1" and "int64_range (RequestsReserved c + 1)"
proof -
  define q where "q = (\<lambda>c. (counter_key c = (day, ''key'', keyID) \<or> counter_key c = (day, ''user'', userID)) \<and> True)"
  have uniq: "keys_unique counter_key (counters db)" using tab by (simp add: tables_ok_def)
  obtain db': "db' = db\<lparr>counters := map (\<lambda>c. if q c then reserve_counter p c else c) (counters db)\<rparr>"
    and ok: "\<forall>c \<in> set (counters db). q c \<longrightarrow> counter_check (reserve_counter p c)"
    unfolding q_def by (rule update_counters_effect [OF uniq run])
  have c: "c \<in> set (counters db)" "counter_key c = k" using row_lookup_Some [OF row [unfolded counter_at_def]] by simp_all
  have qc: "q c" using c(2) k unfolding q_def by blast
  have "counter_check (reserve_counter p c)" using ok c(1) qc by blast
  then show "int64_range (RequestsReserved c + 1)" by (simp add: counter_check_def reserve_counter_def)
  have key: "counter_key (reserve_counter p c) = counter_key c" for c by (simp add: reserve_counter_def)
  have "counter_at db' k = Some (reserve_counter p c)"
    unfolding counter_at_def db'
    using row_lookup_map [where key = counter_key and f = "reserve_counter p" and k = k and p = q and rows = "counters db", OF key]
      row qc by (simp add: counter_at_def)
  then show "reserved_count db' k = RequestsReserved c + 1" by (simp add: reserved_count_def reserve_counter_def)
qed

lemma admitted_below:
  assumes inv: "quota_inv db" and run: "reserveQuotaLockedTx p db = Inr (r, db')" and n: "int (length (leases db)) + 1 < 2 ^ 63"
    and ttl: "0 < rq_LeaseTTL p"
  defines "now \<equiv> fst (rq_Now p)" and "day \<equiv> calendar_day (rq_Day p)" and "l \<equiv> rq_Limits p"
  shows "below (KeyConcurrent l) (int (live_leases (\<lambda>x. ls_key x = rq_APIKeyID p) now db'))
      \<and> below (UserConcurrent l) (int (live_leases (\<lambda>x. ls_user x = rq_UserID p) now db'))
      \<and> below (GlobalConcurrent l) (int (live_leases (\<lambda>x. True) now db'))"
    and "below (KeyRequestsPerMinute l) (window_count db' (window_start p, ''key'', rq_APIKeyID p))
      \<and> below (UserRequestsPerMinute l) (window_count db' (window_start p, ''user'', rq_UserID p))"
    and "below (KeyDailyRequests l) (reserved_count db' (day, ''key'', rq_APIKeyID p))
      \<and> below (UserDailyRequests l) (reserved_count db' (day, ''user'', rq_UserID p))"
proof -
  let ?db2 = "add_windows p (expire_leases p db)" and ?db3 = "add_counters p (add_windows p (expire_leases p db))"
  obtain db4 db5 db6 where conc: "enforce_concurrency p (expire_leases p db) = Inr ()"
    and rate: "enforce_rate p ?db2 = Inr ()" and daily: "enforce_daily p ?db3 = Inr ()"
    and w: "increment_windows p ?db3 = Inr db4"
    and c: "update_counters day (rq_APIKeyID p) (rq_UserID p) (\<lambda>c. True) (reserve_counter p) db4 = Inr db5"
    and i: "insert_reservation p db5 = Inr db6" and le: "insert_lease p db6 = Inr db'"
    unfolding day_def by (rule reserve_chain [OF run])
  show "below (KeyConcurrent l) (int (live_leases (\<lambda>x. ls_key x = rq_APIKeyID p) now db'))
      \<and> below (UserConcurrent l) (int (live_leases (\<lambda>x. ls_user x = rq_UserID p) now db'))
      \<and> below (GlobalConcurrent l) (int (live_leases (\<lambda>x. True) now db'))"
    unfolding now_def l_def
    by (rule concurrency_below [OF conc n _ reserve_keeps(3) [OF inv run]]) (simp add: new_lease_def ttl)
  have t2: "tables_ok ?db2" using inv by (simp add: quota_inv_def expire_leases_ok add_windows_ok)
  have t3: "tables_ok ?db3" by (rule add_counters_ok(1) [OF t2])
  have t4: "tables_ok db4" by (rule increment_windows_ok(1) [OF t3 w])
  have key: "counter_key (reserve_counter p c) = counter_key c" for c by (simp add: reserve_counter_def)
  have t5: "tables_ok db5" by (rule update_counters_tables(1) [OF t4 c key])
  have t6: "tables_ok db6" by (rule insert_reservation_ok(1) [OF t5 i])
  obtain ws where d4: "db4 = ?db3\<lparr>windows := ws\<rparr>" using increment_windows_ok(2) [OF t3 w] by blast
  obtain cs where d5: "db5 = db4\<lparr>counters := cs\<rparr>" using update_counters_tables(2) [OF t4 c key] by blast
  have d': "windows db' = windows db4" "counters db' = counters db5"
    unfolding insert_lease_ok(2) [OF t6 le] insert_reservation_ok(2) [OF t5 i] d5 by simp_all
  have win: "windows ?db3 = windows ?db2" by (simp add: add_counters_def Let_def)
  obtain a b where read: "readRateCounts ?db2 (window_start p) (rq_UserID p) (rq_APIKeyID p) = Inr (a, b)"
    and ra: "enforceQuota ''key'' ''rpm'' (KeyRequestsPerMinute l) a 1 (max second (window_start p + minute - fst (rq_Now p))) = Inr ()"
    and rb: "enforceQuota ''user'' ''rpm'' (UserRequestsPerMinute l) b 1 (max second (window_start p + minute - fst (rq_Now p))) = Inr ()"
    using rate unfolding enforce_rate_def Let_def l_def by (auto simp: andThen_Inr)
  obtain k u where k: "row_lookup window_key (window_start p, ''key'', rq_APIKeyID p) (windows ?db2) = Some k" "request_count k = a"
    and u: "row_lookup window_key (window_start p, ''user'', rq_UserID p) (windows ?db2) = Some u" "request_count u = b"
    by (rule readRateCounts_rows [OF read]) (use t2 in \<open>simp_all add: tables_ok_def\<close>)
  have wc: "window_count db' key = window_count db4 key" for key by (simp add: window_count_def d')
  note ck = window_count_increment [OF t3 w k(1) [folded win]] and cu = window_count_increment [OF t3 w u(1) [folded win]]
  show "below (KeyRequestsPerMinute l) (window_count db' (window_start p, ''key'', rq_APIKeyID p))
      \<and> below (UserRequestsPerMinute l) (window_count db' (window_start p, ''user'', rq_UserID p))"
    using ck cu enforceQuota_below [OF ra] enforceQuota_below [OF rb] k(2) u(2) by (simp add: wc in_scope_def)
  obtain a' b' where read': "readQuotaSnapshots ?db3 day (rq_UserID p) (rq_APIKeyID p) = Inr (a', b')"
    and da: "enforceQuota ''key'' ''daily_requests'' (KeyDailyRequests l) a' 1 (24 * hour) = Inr ()"
    and dbb: "enforceQuota ''user'' ''daily_requests'' (UserDailyRequests l) b' 1 (24 * hour) = Inr ()"
    using daily unfolding enforce_daily_def Let_def l_def day_def by (auto simp: andThen_Inr)
  obtain k' u' where k': "counter_at ?db3 (day, ''key'', rq_APIKeyID p) = Some k'" "RequestsReserved k' = a'"
    and u': "counter_at ?db3 (day, ''user'', rq_UserID p) = Some u'" "RequestsReserved u' = b'"
    by (rule readQuotaSnapshots_rows [OF read']) (use t3 in \<open>simp_all add: tables_ok_def\<close>)
  have at4: "counter_at db4 key = counter_at ?db3 key" for key by (simp add: d4 counter_at_def)
  have rc: "reserved_count db' key = reserved_count db5 key" for key by (simp add: reserved_count_def counter_at_def d')
  note dk = reserved_count_increment [OF t4 c k'(1) [folded at4]] and du = reserved_count_increment [OF t4 c u'(1) [folded at4]]
  show "below (KeyDailyRequests l) (reserved_count db' (day, ''key'', rq_APIKeyID p))
      \<and> below (UserDailyRequests l) (reserved_count db' (day, ''user'', rq_UserID p))"
    using dk du enforceQuota_below [OF da] enforceQuota_below [OF dbb] k'(2) u'(2) by (simp add: rc)
qed

section \<open>Closed reservations\<close>

lemma locked_eval:
  assumes inv: "quota_inv db" and r: "row_lookup qr_RequestID requestID (reservations db) = Some r"
  obtains ls where "distinct ls" and "locked_by_reservation requestID body db =
      andThen (body (db\<lparr>quota_locks := ls\<rparr>)) (\<lambda>db2. Inr ((), db2))"
  by (rule lockQuotaScopes_ok [OF quota_inv_locks [OF inv], of "qr_UserID r" "qr_APIKeyID r"])
    (use that r in \<open>simp add: locked_by_reservation_def readReservation_def\<close>)

lemma settled_row:
  assumes inv: "quota_inv db" and run: "settleQuotaTx requestID n stamp db = Inr db'"
  obtains r where "row_lookup qr_RequestID requestID (reservations db') = Some r"
    and "qr_State r = ''settled''" and "qr_ActualTokens r = Some n"
proof -
  obtain r where r: "row_lookup qr_RequestID requestID (reservations db) = Some r"
    using run unfolding settleQuotaTx_def readReservation_def by (auto split: option.splits)
  show ?thesis
  proof (cases "qr_State r = ''settled'' \<or> qr_State r = ''released''")
    case True
    then show ?thesis using run r that by (auto simp: settleQuotaTx_def readReservation_def split: if_splits)
  next
    case False
    let ?g = "\<lambda>r. r\<lparr>qr_State := ''settled'', qr_ActualTokens := Some n, qr_SettledAt := Some stamp\<rparr>"
    obtain db1 where u: "update_counters (qr_Day r) (qr_APIKeyID r) (qr_UserID r) (\<lambda>c. TokensReserved c \<ge> qr_ReservedTokens r)
          (settle_counter (qr_ReservedTokens r) n stamp) db = Inr db1"
      and fin: "finish_reservation requestID ?g db1 = Inr db'"
      using run r False unfolding settleQuotaTx_def readReservation_def by (auto elim!: andThen_InrE)
    have tab: "tables_ok db" using inv by (simp add: quota_inv_def)
    have t1: "tables_ok db1" by (rule update_counters_tables(1) [OF tab u]) (simp add: settle_counter_def)
    obtain cs where d1: "db1 = db\<lparr>counters := cs\<rparr>"
      using update_counters_tables(2) [OF tab u] by (auto simp: settle_counter_def)
    have "reservations db' = map (\<lambda>r. if qr_RequestID r = requestID then ?g r else r) (reservations db)"
      using finish_reservation_ok(2) [OF t1 fin] by (simp add: d1)
    moreover have "qr_RequestID r = requestID" using row_lookup_Some [OF r] by simp
    ultimately have "row_lookup qr_RequestID requestID (reservations db') = Some (?g r)"
      using row_lookup_map [of qr_RequestID ?g requestID "\<lambda>r. qr_RequestID r = requestID" "reservations db"] r by simp
    then show ?thesis by (rule that) simp_all
  qed
qed

lemma settle_success:
  assumes "quota_inv db" and "SettleQuota clock requestID n at0 db = (Inr (), db')"
  obtains r where "quota_inv db'" and "requestID \<noteq> []" and "0 \<le> n"
    and "row_lookup qr_RequestID requestID (reservations db') = Some r"
    and "qr_State r = ''settled''" and "qr_ActualTokens r = Some n"
proof -
  have ok: "requestID \<noteq> []" "0 \<le> n" using assms(2) by (auto simp: SettleQuota_def split: if_splits)
  define stamp where "stamp = (if at0 = 0 then clock else at0)"
  have tx: "locked_by_reservation requestID (settleQuotaTx requestID n stamp) db = Inr ((), db')"
    using assms(2) ok unfolding SettleQuota_def stamp_def by (simp add: withTx_ok)
  obtain ls where ls: "distinct ls" and run: "settleQuotaTx requestID n stamp (db\<lparr>quota_locks := ls\<rparr>) = Inr db'"
    by (rule locked_by_reservation_run [OF assms(1) tx])
  have inv: "quota_inv (db\<lparr>quota_locks := ls\<rparr>)" by (rule locks_inv [OF ls assms(1)])
  have inv': "quota_inv db'" by (rule settleQuotaTx_keeps [OF inv run])
  show ?thesis by (rule settled_row [OF inv run]) (rule that [OF inv' ok])
qed

lemma reserve_measures:
  assumes inv: "quota_inv db0" and run: "reserveQuotaLockedTx p db0 = Inr (r, db7)"
  shows "reserved_count db7 k = reserved_count db0 k +
      (if k \<in> {(calendar_day (rq_Day p), ''key'', rq_APIKeyID p), (calendar_day (rq_Day p), ''user'', rq_UserID p)} then 1 else 0)"
proof -
  let ?db3 = "add_counters p (add_windows p (expire_leases p db0))"
  obtain db4 db5 db6 where w: "increment_windows p ?db3 = Inr db4"
    and c: "update_counters (calendar_day (rq_Day p)) (rq_APIKeyID p) (rq_UserID p) (\<lambda>c. True) (reserve_counter p) db4 = Inr db5"
    and i: "insert_reservation p db5 = Inr db6" and l: "insert_lease p db6 = Inr db7"
    by (rule reserve_chain [OF run])
  have t3: "tables_ok ?db3"
    using inv by (simp add: quota_inv_def expire_leases_ok add_windows_ok add_counters_ok(1))
  have t4: "tables_ok db4" by (rule increment_windows_ok(1) [OF t3 w])
  have key: "counter_key (reserve_counter p c) = counter_key c" for c by (simp add: reserve_counter_def)
  have t5: "tables_ok db5" by (rule update_counters_tables(1) [OF t4 c key])
  have t6: "tables_ok db6" by (rule insert_reservation_ok(1) [OF t5 i])
  obtain ws where d4: "db4 = ?db3\<lparr>windows := ws\<rparr>" using increment_windows_ok(2) [OF t3 w] by blast
  have m7: "measure_at RequestsReserved db7 k = measure_at RequestsReserved db5 k"
    unfolding insert_lease_ok(2) [OF t6 l] insert_reservation_ok(2) [OF t5 i] by (simp add: measure_at_def counter_at_def)
  have "counter_at ?db3 k = counter_at db0 k
      \<or> counter_at db0 k = None \<and> (\<exists>d n s i. counter_at ?db3 k = Some (blank_counter d n s i))"
    unfolding counter_at_def add_counters_def add_windows_def expire_leases_def Let_def by (auto simp: rows.lookup_insert)
  then have m3: "measure_at RequestsReserved db4 k = measure_at RequestsReserved db0 k"
    by (auto simp: d4 measure_at_def counter_at_def blank_counter_def)
  have u4: "keys_unique counter_key (counters db4)" using t4 by (simp add: tables_ok_def)
  have "measure_at RequestsReserved db5 k = measure_at RequestsReserved db4 k +
      (if k \<in> {(calendar_day (rq_Day p), ''key'', rq_APIKeyID p), (calendar_day (rq_Day p), ''user'', rq_UserID p)} then 1 else 0)"
    by (rule update_counters_measure [OF u4 c key]) (simp add: reserve_counter_def)
  then show ?thesis using m7 m3 by (simp add: reserved_count_def measure_at_def)
qed

lemma release_measures:
  assumes inv: "quota_inv db" and run: "releaseQuotaTx requestID stamp db = Inr db'"
    and r: "row_lookup qr_RequestID requestID (reservations db) = Some r" "qr_State r = ''reserved''"
  shows "reserved_count db' k = reserved_count db k +
      (if k \<in> {(qr_Day r, ''key'', qr_APIKeyID r), (qr_Day r, ''user'', qr_UserID r)} then - 1 else 0)"
    and "leases db' = sql_delete (\<lambda>l. ls_request l = requestID) (leases db)"
proof -
  let ?g = "\<lambda>r. r\<lparr>qr_State := ''released'', qr_SettledAt := Some stamp\<rparr>"
  obtain db1 where u: "update_counters (qr_Day r) (qr_APIKeyID r) (qr_UserID r)
        (\<lambda>c. RequestsReserved c > 0 \<and> TokensReserved c \<ge> qr_ReservedTokens r)
        (release_counter (qr_ReservedTokens r) stamp) db = Inr db1"
    and fin: "finish_reservation requestID ?g db1 = Inr db'"
    using run r unfolding releaseQuotaTx_def readReservation_def by (auto elim!: andThen_InrE)
  have tab: "tables_ok db" using inv by (simp add: quota_inv_def)
  have key: "counter_key (release_counter t stamp c) = counter_key c" for t c by (simp add: release_counter_def)
  have t1: "tables_ok db1" by (rule update_counters_tables(1) [OF tab u key])
  obtain cs where d1: "db1 = db\<lparr>counters := cs\<rparr>" using update_counters_tables(2) [OF tab u key] by blast
  have gid: "qr_RequestID (?g r) = qr_RequestID r" for r by simp
  note d' = finish_reservation_ok(2) [OF t1 fin gid]
  show "leases db' = sql_delete (\<lambda>l. ls_request l = requestID) (leases db)" by (simp add: d' d1)
  have uniq: "keys_unique counter_key (counters db)" using tab by (simp add: tables_ok_def)
  have "measure_at RequestsReserved db1 k = measure_at RequestsReserved db k +
      (if k \<in> {(qr_Day r, ''key'', qr_APIKeyID r), (qr_Day r, ''user'', qr_UserID r)} then - 1 else 0)"
    by (rule update_counters_measure [OF uniq u key]) (simp add: release_counter_def)
  then show "reserved_count db' k = reserved_count db k +
      (if k \<in> {(qr_Day r, ''key'', qr_APIKeyID r), (qr_Day r, ''user'', qr_UserID r)} then - 1 else 0)"
    by (simp add: reserved_count_def measure_at_def d' counter_at_def)
qed

section \<open>Properties\<close>

text \<open>
  C5: The daily counters always account for the open reservations: after any sequence of admissions, settlements,
  releases and lease renewals, successful or refused, the requests a counter shows as reserved but not
  completed and the tokens it shows as reserved are exactly those of the reservations still open for
  that day and scope, and every constraint of the tables holds.
\<close>

theorem quota_accounting_invariant:
  assumes "quota_inv db"
  shows "quota_inv (foldl quota_step db ops)"
  using assms by (induction ops arbitrary: db) (simp_all add: quota_step_inv)

definition example_request :: string where
  "example_request = ''request-00000001''"

definition example_limits :: QuotaLimits where
  "example_limits = \<lparr>KeyRequestsPerMinute = 2, UserRequestsPerMinute = 3, KeyConcurrent = 1, UserConcurrent = 2,
     GlobalConcurrent = 3, KeyDailyRequests = 4, UserDailyRequests = 5\<rparr>"

definition example_params :: ReserveQuotaParams where
  "example_params = \<lparr>rq_RequestID = example_request, rq_UserID = ''u'', rq_APIKeyID = ''k'', rq_Day = (0, 0),
     rq_Now = (minute, 0), rq_ReservedTokens = 7, rq_LeaseTTL = minute, rq_Limits = example_limits\<rparr>"

definition example_quota_db :: quota_db where
  "example_quota_db = \<lparr>key_owners = [(''k'', ''u'')], quota_locks = [], windows = [], counters = [], reservations = [], leases = []\<rparr>"

definition example_admitted :: "(store_error + QuotaReservation) \<times> quota_db" where
  "example_admitted = ReserveQuota 1 example_params example_quota_db"

lemma example_quota_inv: "quota_inv example_quota_db"
  by (simp add: quota_inv_def tables_ok_def acct_ok_def example_quota_db_def keys_unique_def request_balance_def
      token_balance_def counter_at_def row_lookup_def)

lemma example_admitted_ok: "example_admitted = (Inr (projr (fst example_admitted)), snd example_admitted)"
proof -
  have "isl (fst example_admitted) = False" by code_simp
  then show ?thesis by (metis prod.collapse sum.collapse(2))
qed

lemma example_admitted_inv: "quota_inv (snd example_admitted)"
  using quota_step_inv [OF example_quota_inv, of "OpReserve 1 example_params"] by (simp add: example_admitted_def)

theorem quota_accounting_invariant_witness:
  "quota_inv (foldl quota_step example_quota_db [OpReserve 1 example_params, OpSettle 2 example_request 9 0])"
  by (rule quota_accounting_invariant [OF example_quota_inv])



text \<open>
  C7: An admitted request never exceeds a limit that is set: right after the admission, the live leases of its key,
  of its user and of all users, the requests of its key and user in the current minute and their requests
  of the day are at most the configured numbers, the new request included. This also holds at the
  end of the 64-bit range of the stored counts.
\<close>

theorem admitted_request_below_limits:
  assumes "quota_inv db" and "normalizeReserveQuota clock p0 = Inr p" and "ReserveQuota clock p0 db = (Inr r, db')"
    and "int (length (leases db)) + 1 < 2 ^ 63"
  shows "below (KeyConcurrent (rq_Limits p)) (int (live_leases (\<lambda>x. ls_key x = rq_APIKeyID p) (fst (rq_Now p)) db'))
    \<and> below (UserConcurrent (rq_Limits p)) (int (live_leases (\<lambda>x. ls_user x = rq_UserID p) (fst (rq_Now p)) db'))
    \<and> below (GlobalConcurrent (rq_Limits p)) (int (live_leases (\<lambda>x. True) (fst (rq_Now p)) db'))
    \<and> below (KeyRequestsPerMinute (rq_Limits p)) (window_count db' (window_start p, ''key'', rq_APIKeyID p))
    \<and> below (UserRequestsPerMinute (rq_Limits p)) (window_count db' (window_start p, ''user'', rq_UserID p))
    \<and> below (KeyDailyRequests (rq_Limits p)) (reserved_count db' (calendar_day (rq_Day p), ''key'', rq_APIKeyID p))
    \<and> below (UserDailyRequests (rq_Limits p)) (reserved_count db' (calendar_day (rq_Day p), ''user'', rq_UserID p))"
proof -
  have ttl: "0 < rq_LeaseTTL p"
    using assms(2) unfolding normalizeReserveQuota_def Let_def by (auto simp: andThen_Inr split: if_splits)
  have tx: "reserveQuotaTx p db = Inr (r, db')" using assms(2,3) by (simp add: ReserveQuota_def withTx_ok)
  obtain ls where ls: "distinct ls" and run: "reserveQuotaLockedTx p (db\<lparr>quota_locks := ls\<rparr>) = Inr (r, db')"
    by (rule reserve_run [OF assms(1) tx])
  show ?thesis using admitted_below [OF locks_inv [OF ls assms(1)] run _ ttl] assms(4) by simp
qed

theorem admitted_request_below_limits_witness:
  "below 1 (int (live_leases (\<lambda>x. ls_key x = ''k'') minute (snd example_admitted)))"
proof -
  define p where "p = example_params\<lparr>rq_Day := (minute, 0)\<rparr>"
  have n: "normalizeReserveQuota 1 example_params = Inr p" unfolding p_def by code_simp
  have run: "ReserveQuota 1 example_params example_quota_db = (Inr (projr (fst example_admitted)), snd example_admitted)"
    using example_admitted_ok unfolding example_admitted_def .
  have "int (length (leases example_quota_db)) + 1 < 2 ^ 63" by (simp add: example_quota_db_def)
  from admitted_request_below_limits [OF example_quota_inv n run this]
  have "below (KeyConcurrent (rq_Limits p)) (int (live_leases (\<lambda>x. ls_key x = rq_APIKeyID p) (fst (rq_Now p)) (snd example_admitted)))"
    by (rule conjunct1)
  then show ?thesis by (simp add: p_def example_params_def example_limits_def)
qed

text \<open>
  C29: A settlement is final and can be repeated: settling again with the same tokens succeeds without changing
  counters, reservations or leases, while settling with other tokens or releasing is a conflict.
\<close>

theorem settlement_final_and_idempotent:
  assumes "quota_inv db" and "SettleQuota clock requestID n at0 db = (Inr (), db')" and "0 \<le> m" and "m \<noteq> n"
  shows "fst (SettleQuota clock' requestID n at1 db') = Inr ()
    \<and> (snd (SettleQuota clock' requestID n at1 db'))\<lparr>quota_locks := quota_locks db'\<rparr> = db'
    \<and> SettleQuota clock' requestID m at1 db' = (Inl ErrConflict, db')
    \<and> ReleaseQuota clock' requestID at1 db' = (Inl ErrConflict, db')"
proof -
  define stamp where "stamp = (if at1 = 0 then clock' else at1)"
  obtain r where inv': "quota_inv db'" and ok: "requestID \<noteq> []" "0 \<le> n"
    and r: "row_lookup qr_RequestID requestID (reservations db') = Some r"
    and st: "qr_State r = ''settled''" "qr_ActualTokens r = Some n"
    by (rule settle_success [OF assms(1,2)])
  have eval: "\<exists>ls. locked_by_reservation requestID body db' = andThen (body (db'\<lparr>quota_locks := ls\<rparr>)) (\<lambda>db2. Inr ((), db2))" for body
    by (rule locked_eval [OF inv' r, of body]) blast
  have same: "settleQuotaTx requestID n stamp (db'\<lparr>quota_locks := ls\<rparr>) = Inr (db'\<lparr>quota_locks := ls\<rparr>)" for ls
    using r st by (simp add: settleQuotaTx_def readReservation_def)
  have other: "settleQuotaTx requestID m stamp (db'\<lparr>quota_locks := ls\<rparr>) = Inl ErrConflict" for ls
    using r st assms(4) by (simp add: settleQuotaTx_def readReservation_def)
  have release: "releaseQuotaTx requestID stamp (db'\<lparr>quota_locks := ls\<rparr>) = Inl ErrConflict" for ls
    using r st by (simp add: releaseQuotaTx_def readReservation_def)
  obtain ls where "locked_by_reservation requestID (settleQuotaTx requestID n stamp) db' = Inr ((), db'\<lparr>quota_locks := ls\<rparr>)"
    using eval [of "settleQuotaTx requestID n stamp"] same by auto
  moreover have "locked_by_reservation requestID (settleQuotaTx requestID m stamp) db' = Inl ErrConflict"
    using eval [of "settleQuotaTx requestID m stamp"] other by auto
  moreover have "locked_by_reservation requestID (releaseQuotaTx requestID stamp) db' = Inl ErrConflict"
    using eval [of "releaseQuotaTx requestID stamp"] release by auto
  ultimately show ?thesis
    using ok assms(3) by (simp add: SettleQuota_def ReleaseQuota_def stamp_def withTx_def)
qed

definition example_settled :: "(store_error + unit) \<times> quota_db" where
  "example_settled = SettleQuota 1 example_request 9 0 (snd example_admitted)"

theorem settlement_final_and_idempotent_witness:
  "ReleaseQuota 3 example_request 0 (snd example_settled) = (Inl ErrConflict, snd example_settled)"
proof -
  have "fst example_settled = Inr ()" by code_simp
  then have "SettleQuota 1 example_request 9 0 (snd example_admitted) = (Inr (), snd example_settled)"
    unfolding example_settled_def by (metis prod.collapse)
  from settlement_final_and_idempotent [OF example_admitted_inv this, of 8 3 0] show ?thesis by simp
qed



text \<open>
  C30: Releasing a request undoes its admission: after an admission and the release of the same request, every daily
  request count is what it was before, and the request holds no lease.
\<close>

theorem release_undoes_admission:
  assumes "quota_inv db" and "ReserveQuota clock p0 db = (Inr r, db1)"
    and "ReleaseQuota clock' (qr_RequestID r) at0 db1 = (result, db2)"
  shows "result = Inr () \<and> reserved_count db2 k = reserved_count db k
    \<and> qr_RequestID r \<notin> ls_request ` set (leases db2)"
proof -
  define stamp where "stamp = (if at0 = 0 then clock' else at0)"
  obtain p where p: "normalizeReserveQuota clock p0 = Inr p" and tx: "reserveQuotaTx p db = Inr (r, db1)"
    using assms(2) by (auto simp: ReserveQuota_def withTx_ok split: sum.splits)
  obtain ls where ls: "distinct ls" and run: "reserveQuotaLockedTx p (db\<lparr>quota_locks := ls\<rparr>) = Inr (r, db1)"
    by (rule reserve_run [OF assms(1) tx])
  note inv0 = locks_inv [OF ls assms(1)]
  have inv1: "quota_inv db1" by (rule reserve_keeps(1) [OF inv0 run])
  have r: "r = new_reservation p" by (rule reserve_chain [OF run])
  have mem: "new_reservation p \<in> set (reservations db1)" using reserve_keeps(2) [OF inv0 run] by simp
  have "keys_unique qr_RequestID (reservations db1)" using inv1 by (simp add: quota_inv_def tables_ok_def)
  from row_lookup_unique [OF this mem]
  have row: "row_lookup qr_RequestID (qr_RequestID r) (reservations db1) = Some r" by (simp add: r)
  have state: "qr_State r = ''reserved''" by (simp add: r new_reservation_def)
  obtain ls' where ls': "distinct ls'" and eval: "locked_by_reservation (qr_RequestID r) (releaseQuotaTx (qr_RequestID r) stamp) db1 =
      andThen (releaseQuotaTx (qr_RequestID r) stamp (db1\<lparr>quota_locks := ls'\<rparr>)) (\<lambda>db2. Inr ((), db2))"
    by (rule locked_eval [OF inv1 row])
  let ?db1 = "db1\<lparr>quota_locks := ls'\<rparr>"
  have inv1': "quota_inv ?db1" by (rule locks_inv [OF ls' inv1])
  have row': "row_lookup qr_RequestID (qr_RequestID r) (reservations ?db1) = Some r" using row by simp
  obtain d where d: "releaseQuotaTx (qr_RequestID r) stamp ?db1 = Inr d"
    using releaseQuotaTx_succeeds [OF inv1' row' state] by blast
  have "reservation_check db1 r" using inv1 row_lookup_Some [OF row] by (auto simp: quota_inv_def tables_ok_def)
  then have "qr_RequestID r \<noteq> []" by (auto simp: reservation_check_def request_id_valid_def char_length_def)
  then have res: "result = Inr ()" "db2 = d"
    using assms(3) eval d by (simp_all add: ReleaseQuota_def stamp_def withTx_def)
  have keys: "{(qr_Day r, ''key'', qr_APIKeyID r), (qr_Day r, ''user'', qr_UserID r)} =
      {(calendar_day (rq_Day p), ''key'', rq_APIKeyID p), (calendar_day (rq_Day p), ''user'', rq_UserID p)}"
    by (simp add: r new_reservation_def)
  have same: "reserved_count (x\<lparr>quota_locks := y\<rparr>) k = reserved_count x k" for x y by (simp add: reserved_count_def)
  have "reserved_count d k = reserved_count db k"
    using reserve_measures [OF inv0 run, of k] release_measures(1) [OF inv1' d row' state, of k] unfolding keys same by simp
  moreover have "qr_RequestID r \<notin> ls_request ` set (leases d)"
    unfolding release_measures(2) [OF inv1' d row' state] by (auto simp: sql_delete_def)
  ultimately show ?thesis using res by simp
qed

theorem release_undoes_admission_witness:
  "reserved_count (snd (ReleaseQuota 5 example_request 0 (snd example_admitted))) (0, ''key'', ''k'') = 0"
proof -
  have run: "ReserveQuota 1 example_params example_quota_db = (Inr (projr (fst example_admitted)), snd example_admitted)"
    using example_admitted_ok unfolding example_admitted_def .
  have "qr_RequestID (projr (fst example_admitted)) = example_request" by code_simp
  then have rel: "ReleaseQuota 5 (qr_RequestID (projr (fst example_admitted))) 0 (snd example_admitted) =
      (fst (ReleaseQuota 5 example_request 0 (snd example_admitted)), snd (ReleaseQuota 5 example_request 0 (snd example_admitted)))"
    by simp
  have "reserved_count example_quota_db (0, ''key'', ''k'') = 0"
    by (simp add: reserved_count_def counter_at_def example_quota_db_def row_lookup_def)
  then show ?thesis using release_undoes_admission [OF example_quota_inv run rel, of "(0, ''key'', ''k'')"] by simp
qed

text \<open>
  C32: The retention clean-up keeps the accounting exact as long as no reservation of a deleted day is still open: it
  never deletes an open reservation, and the counters it keeps still show the open reservations.
\<close>

theorem retention_keeps_accounting:
  assumes "quota_inv db" and "list_all (\<lambda>r. qr_State r = ''reserved'' \<longrightarrow> calendar_day before \<le> qr_Day r) (reservations db)"
  shows "quota_inv (DeleteQuotaStateBefore billed before db)
    \<and> filter (\<lambda>r. qr_State r = ''reserved'') (reservations (DeleteQuotaStateBefore billed before db)) =
      filter (\<lambda>r. qr_State r = ''reserved'') (reservations db)"
proof
  let ?db = "DeleteQuotaStateBefore billed before db"
  let ?old = "\<lambda>r. qr_State r \<noteq> ''reserved'' \<and> (case qr_SettledAt r of None \<Rightarrow> False | Some t \<Rightarrow> t < fst before) \<and> \<not> billed (qr_RequestID r)"
  have res: "reservations ?db = filter (\<lambda>r. \<not> ?old r) (reservations db)" by (simp add: DeleteQuotaStateBefore_def sql_delete_def)
  show "filter (\<lambda>r. qr_State r = ''reserved'') (reservations ?db) = filter (\<lambda>r. qr_State r = ''reserved'') (reservations db)"
    unfolding res filter_filter by (rule filter_cong) auto
  have tab: "tables_ok db" using assms(1) by (simp add: quota_inv_def)
  have uniq: "keys_unique counter_key (counters db)" using tab by (simp add: tables_ok_def)
  have own: "key_owners ?db = key_owners db" by (simp add: DeleteQuotaStateBefore_def)
  have "tables_ok ?db"
    using tab check_owners [OF own] unfolding tables_ok_def
    by (simp add: DeleteQuotaStateBefore_def sql_delete_def keys_unique_filter)
  moreover have "acct_ok ?db"
    unfolding acct_ok_def
  proof
    fix k :: "int \<times> string \<times> string"
    have acct: "request_balance db k = sum_list (map (open_requests k) (reservations db))"
      "token_balance db k = sum_list (map (open_tokens k) (reservations db))"
      using assms(1) unfolding quota_inv_def acct_ok_def by blast+
    have sums: "sum_list (map (open_requests k) (reservations ?db)) = sum_list (map (open_requests k) (reservations db))"
      "sum_list (map (open_tokens k) (reservations ?db)) = sum_list (map (open_tokens k) (reservations db))"
      unfolding res by (rule sum_rows_filter; simp add: open_requests_def open_tokens_def)+
    have kept: "counter_at ?db k = (case counter_at db k of None \<Rightarrow> None
        | Some c \<Rightarrow> if \<not> qc_Day c < calendar_day before then Some c else None)"
      unfolding counter_at_def DeleteQuotaStateBefore_def sql_delete_def
      using row_lookup_filter [OF uniq, of k "\<lambda>c. \<not> qc_Day c < calendar_day before"] by simp
    have day: "qc_Day c = fst k" if "counter_at db k = Some c" for c
      using row_lookup_Some [OF that [unfolded counter_at_def]] by auto
    show "request_balance ?db k = sum_list (map (open_requests k) (reservations ?db))
        \<and> token_balance ?db k = sum_list (map (open_tokens k) (reservations ?db))"
    proof (cases "fst k < calendar_day before")
      case True
      have none: "\<not> (qr_State r = ''reserved'' \<and> charged_to k r)" if "r \<in> set (reservations db)" for r
        using assms(2) that True by (auto simp: list_all_iff charged_to_def)
      have "sum_list (map (open_requests k) (reservations db)) = 0" "sum_list (map (open_tokens k) (reservations db)) = 0"
        by (rule sum_rows_zero; use none in \<open>auto simp: open_requests_def open_tokens_def\<close>)+
      moreover have "counter_at ?db k = None" unfolding kept using day True by (auto split: option.splits)
      ultimately show ?thesis unfolding sums by (simp add: request_balance_def token_balance_def)
    next
      case False
      then have "counter_at ?db k = counter_at db k" unfolding kept using day by (auto split: option.splits)
      then show ?thesis using acct unfolding sums by (simp add: request_balance_def token_balance_def)
    qed
  qed
  ultimately show "quota_inv ?db" by (simp add: quota_inv_def)
qed

theorem retention_keeps_accounting_witness:
  "quota_inv (DeleteQuotaStateBefore (\<lambda>_. False) (2 * minute, 0) (snd example_admitted))"
proof -
  have "list_all (\<lambda>r. qr_State r = ''reserved'' \<longrightarrow> calendar_day (2 * minute, 0) \<le> qr_Day r)
      (reservations (snd example_admitted))" by code_simp
  from retention_keeps_accounting [OF example_admitted_inv this] show ?thesis by (rule conjunct1)
qed

end
