(* ===== verification/Encoding.thy ===== *)
theory Encoding
  imports Prelude
begin

text \<open>
  The text encodings that credentials use: Go's \<^verbatim>\<open>base64.RawURLEncoding\<close>, strict and lenient about trailing
  bits, and an unpadded base 32 with the Crockford alphabet. Both cut the bit sequence of the bytes into groups of
  \<open>k\<close> bits, the first bit the most significant, and write one letter per group, the last group filled up with
  zero bits. Decoding skips carriage returns and line feeds, as Go's decoders do. Go's base 32 decoder drops a last
  group of 1, 3 or 6 letters silently where \<open>decode\<close> rejects it; the code decodes only texts of 24 letters, which are
  three full groups of eight, and there the two agree.
\<close>

section \<open>Bits\<close>

fun to_bits :: "nat \<Rightarrow> nat \<Rightarrow> bool list" where
  "to_bits 0 n = []"
| "to_bits (Suc w) n = (n div 2 ^ w mod 2 = 1) # to_bits w n"

fun from_bits :: "bool list \<Rightarrow> nat" where
  "from_bits [] = 0"
| "from_bits (b # bs) = (if b then 2 ^ length bs else 0) + from_bits bs"

function chunk :: "nat \<Rightarrow> 'a list \<Rightarrow> 'a list list" where
  "chunk k xs = (if k = 0 \<or> xs = [] then [] else take k xs # chunk k (drop k xs))"
  by auto
termination by (relation "measure (\<lambda>(k, xs). length xs)") auto

declare chunk.simps [simp del]

definition byte_bits :: "string \<Rightarrow> bool list" where
  "byte_bits bs = concat (map (\<lambda>c. to_bits 8 (of_char c)) bs)"

definition bits_bytes :: "bool list \<Rightarrow> string" where
  "bits_bytes bits = map (\<lambda>c. char_of (from_bits c)) (chunk 8 bits)"

section \<open>Encoding and decoding\<close>

definition pad_group :: "nat \<Rightarrow> bool list \<Rightarrow> bool list" where
  "pad_group k c = c @ replicate (k - length c) False"

definition encode :: "nat \<Rightarrow> string \<Rightarrow> string \<Rightarrow> string" where
  "encode k alphabet bs = map (\<lambda>c. alphabet ! from_bits (pad_group k c)) (chunk k (byte_bits bs))"

fun letter_value :: "string \<Rightarrow> char \<Rightarrow> nat option" where
  "letter_value [] c = None"
| "letter_value (a # alphabet) c = (if a = c then Some 0 else map_option Suc (letter_value alphabet c))"

fun letter_values :: "string \<Rightarrow> string \<Rightarrow> nat list option" where
  "letter_values alphabet [] = Some []"
| "letter_values alphabet (c # s) =
     (case (letter_value alphabet c, letter_values alphabet s) of (Some v, Some vs) \<Rightarrow> Some (v # vs) | _ \<Rightarrow> None)"

definition is_newline :: "char \<Rightarrow> bool" where
  "is_newline c = (c = CHR 0x0A \<or> c = CHR 0x0D)"

definition decode :: "nat \<Rightarrow> bool \<Rightarrow> string \<Rightarrow> string \<Rightarrow> string option" where
  "decode k strict alphabet s =
     (case letter_values alphabet (filter (\<lambda>c. \<not> is_newline c) s) of
        None \<Rightarrow> None
      | Some vs \<Rightarrow>
          let bits = concat (map (to_bits k) vs); n = 8 * (length bits div 8); rest = drop n bits in
          if length rest \<ge> k \<or> strict \<and> list_ex (\<lambda>b. b) rest then None else Some (bits_bytes (take n bits)))"

definition url_alphabet :: string where
  "url_alphabet = ''ABCDEFGHIJKLMNOPQRSTUVWXYZabcdefghijklmnopqrstuvwxyz0123456789-_''"

definition crockford_alphabet :: string where
  "crockford_alphabet = ''0123456789ABCDEFGHJKMNPQRSTVWXYZ''"

section \<open>Laws of the bits\<close>

lemma length_to_bits [simp]: "length (to_bits w n) = w"
  by (induction w) auto

lemma from_bits_less: "from_bits bs < 2 ^ length bs"
  by (induction bs) auto

lemma from_to_bits: "from_bits (to_bits w n) = n mod 2 ^ w"
proof (induction w)
  case (Suc w)
  have "n mod 2 ^ Suc w = 2 ^ w * (n div 2 ^ w mod 2) + n mod 2 ^ w"
    using mod_mult2_eq [of n "2 ^ w" 2] by (simp add: mult.commute)
  moreover have "n div 2 ^ w mod 2 = 0 \<or> n div 2 ^ w mod 2 = 1" by linarith
  ultimately show ?case using Suc by auto
qed simp

lemma to_from_bits: "to_bits (length bs) (from_bits bs) = bs"
proof (induction bs)
  case (Cons b bs)
  have less: "from_bits bs < 2 ^ length bs" by (rule from_bits_less)
  have low: "to_bits w (2 ^ length bs + n) = to_bits w n" if "w \<le> length bs" for w n
    using that
  proof (induction w)
    case (Suc w)
    have "(2 ^ length bs + n) div 2 ^ w mod 2 = n div 2 ^ w mod 2"
    proof -
      obtain d where d: "length bs = w + Suc d" using Suc.prems by (metis add_Suc_right less_iff_Suc_add Suc_le_eq)
      have "(2 ^ length bs + n) div 2 ^ w = 2 * 2 ^ d + n div 2 ^ w"
        unfolding d power_add by (simp add: div_mult_self4 mult.commute)
      then show ?thesis by simp
    qed
    then show ?case using Suc by simp
  qed simp
  have "(from_bits (b # bs) div 2 ^ length bs mod 2 = 1) = b" using less by simp
  moreover have "to_bits (length bs) (from_bits (b # bs)) = bs"
    using Cons low [of "length bs" "from_bits bs"] by simp
  ultimately show ?case by simp
qed simp

lemma chunk_Nil [simp]: "chunk k [] = []" by (simp add: chunk.simps)

lemma chunk_append:
  assumes "length c = k" and "0 < k"
  shows "chunk k (c @ xs) = c # chunk k xs"
  using assms by (subst chunk.simps) auto

lemma chunk_concat:
  assumes "0 < k" and "\<And>c. c \<in> set cs \<Longrightarrow> length c = k"
  shows "chunk k (concat cs) = cs"
  using assms(2) by (induction cs) (simp_all add: chunk_append assms(1))

lemma bits_bytes_inverse: "bits_bytes (byte_bits bs) = bs"
proof -
  have "chunk 8 (concat (map (\<lambda>c. to_bits 8 (of_char c)) bs)) = map (\<lambda>c. to_bits 8 (of_char c)) bs"
    by (rule chunk_concat) auto
  moreover have "char_of (from_bits (to_bits 8 (of_char c))) = c" for c :: char
  proof -
    have "(of_char c :: nat) mod 2 ^ 8 = of_char c" using of_char_mod_256 [of c, where 'a = nat] by simp
    then show ?thesis unfolding from_to_bits by simp
  qed
  ultimately show ?thesis unfolding bits_bytes_def byte_bits_def by (simp add: comp_def map_idI)
qed

lemma length_byte_bits [simp]: "length (byte_bits bs) = 8 * length bs"
  unfolding byte_bits_def by (induction bs) auto

text \<open>The padded groups spell the original bits and fewer than \<open>k\<close> zero bits.\<close>

lemma padded_chunks:
  assumes "0 < k"
  shows "\<exists>z < k. concat (map (pad_group k) (chunk k xs)) = xs @ replicate z False"
    and "c \<in> set (chunk k xs) \<Longrightarrow> length (pad_group k c) = k"
proof -
  have "(\<exists>z < k. concat (map (pad_group k) (chunk k xs)) = xs @ replicate z False)
      \<and> (\<forall>c \<in> set (chunk k xs). length (pad_group k c) = k)"
    using assms
  proof (induction k xs rule: chunk.induct)
    case (1 k xs)
    show ?case
    proof (cases "k = 0 \<or> xs = []")
      case False
      then have IH: "\<exists>z < k. concat (map (pad_group k) (chunk k (drop k xs))) = drop k xs @ replicate z False"
        "\<forall>c \<in> set (chunk k (drop k xs)). length (pad_group k c) = k" using 1 by blast+
      have c: "chunk k xs = take k xs # chunk k (drop k xs)" using False by (subst chunk.simps) simp
      show ?thesis
      proof (cases "k \<le> length xs")
        case True
        then have "pad_group k (take k xs) = take k xs" by (simp add: pad_group_def)
        then show ?thesis using IH True False unfolding c by (auto simp: append_take_drop_id simp flip: append_assoc)
      next
        case short: False
        then have "pad_group k (take k xs) = xs @ replicate (k - length xs) False" "drop k xs = []" by (simp_all add: pad_group_def)
        moreover have "k - length xs < k" using False by (simp add: length_greater_0_conv)
        ultimately show ?thesis unfolding c using short by auto
      qed
    qed (use 1 in \<open>auto simp: chunk.simps\<close>)
  qed
  then show "\<exists>z < k. concat (map (pad_group k) (chunk k xs)) = xs @ replicate z False"
    and "c \<in> set (chunk k xs) \<Longrightarrow> length (pad_group k c) = k" by blast+
qed

section \<open>Codecs\<close>

lemma letter_value_nth: "distinct alphabet \<Longrightarrow> i < length alphabet \<Longrightarrow> letter_value alphabet (alphabet ! i) = Some i"
proof (induction alphabet arbitrary: i)
  case (Cons a alphabet)
  then show ?case by (cases i) (auto simp: nth_mem)
qed simp

text \<open>
  What the credentials rely on: decoding inverts encoding, an encoded text has only letters of the alphabet and a length
  fixed by the number of bytes.
\<close>

locale codec =
  fixes k :: nat and alphabet :: string
  assumes width: "0 < k" "k \<le> 8"
    and letters: "length alphabet = 2 ^ k" "distinct alphabet"
    and plain: "\<And>c. c \<in> set alphabet \<Longrightarrow> \<not> is_newline c"
begin

lemma group_value: "c \<in> set (chunk k xs) \<Longrightarrow> from_bits (pad_group k c) < length alphabet"
  using padded_chunks(2) [OF width(1)] from_bits_less [of "pad_group k c"] by (simp add: letters)

lemma encode_letters: "set (encode k alphabet bs) \<subseteq> set alphabet"
  unfolding encode_def using group_value by (auto intro: nth_mem)

lemma values_of_letters:
  "(\<And>v. v \<in> set vs \<Longrightarrow> v < length alphabet) \<Longrightarrow> letter_values alphabet (map (\<lambda>v. alphabet ! v) vs) = Some vs"
  by (induction vs) (simp_all add: letter_value_nth letters(2))

lemma encode_length: "\<exists>z < k. length (encode k alphabet bs) * k = 8 * length bs + z"
proof -
  obtain z where z: "z < k" "concat (map (pad_group k) (chunk k (byte_bits bs))) = byte_bits bs @ replicate z False"
    using padded_chunks(1) [OF width(1)] by blast
  have len: "length (concat (map (pad_group k) cs)) = length cs * k" if "\<And>c. c \<in> set cs \<Longrightarrow> length (pad_group k c) = k" for cs
    using that by (induction cs) auto
  have "length (encode k alphabet bs) * k = length (concat (map (pad_group k) (chunk k (byte_bits bs))))"
    unfolding encode_def using len [OF padded_chunks(2) [OF width(1)]] by simp
  then have "length (encode k alphabet bs) * k = 8 * length bs + z" unfolding z(2) by simp
  then show ?thesis using z(1) by blast
qed

lemma decode_encode: "decode k strict alphabet (encode k alphabet bs) = Some bs"
proof -
  let ?cs = "chunk k (byte_bits bs)"
  let ?vs = "map (\<lambda>c. from_bits (pad_group k c)) ?cs"
  have "filter (\<lambda>c. \<not> is_newline c) (encode k alphabet bs) = encode k alphabet bs"
    using encode_letters [of bs] plain by (auto simp: filter_id_conv)
  moreover have "encode k alphabet bs = map (\<lambda>v. alphabet ! v) ?vs" by (simp add: encode_def)
  moreover have "letter_values alphabet (map (\<lambda>v. alphabet ! v) ?vs) = Some ?vs"
    by (rule values_of_letters) (auto intro: group_value)
  ultimately have vs: "letter_values alphabet (filter (\<lambda>c. \<not> is_newline c) (encode k alphabet bs)) = Some ?vs" by simp
  obtain z where z: "z < k" "concat (map (pad_group k) ?cs) = byte_bits bs @ replicate z False"
    using padded_chunks(1) [OF width(1)] by blast
  have "to_bits k (from_bits (pad_group k c)) = pad_group k c" if "c \<in> set ?cs" for c
    using to_from_bits [of "pad_group k c"] padded_chunks(2) [OF width(1) that] by simp
  then have "map (to_bits k) ?vs = map (pad_group k) ?cs" by simp
  then have bits: "concat (map (to_bits k) ?vs) = byte_bits bs @ replicate z False" using z(2) by (simp only:)
  have "8 * ((8 * length bs + z) div 8) = 8 * length bs" using z(1) width(2) by simp
  then show ?thesis
    unfolding decode_def vs option.case Let_def bits using z(1) by (simp add: bits_bytes_inverse list_ex_iff)
qed

end

interpretation b64: codec 6 url_alphabet
  by unfold_locales (simp_all add: url_alphabet_def is_newline_def, auto)

interpretation b32: codec 5 crockford_alphabet
  by unfold_locales (simp_all add: crockford_alphabet_def is_newline_def, auto)

end
