(* ===== verification/Credentials.thy ===== *)
theory Credentials
  imports Encoding "HOL-Library.Word"
begin

text \<open>
  The credentials of \<^verbatim>\<open>internal/security\<close>: API keys (\<^verbatim>\<open>apikey.go\<close>), their encrypted storage
  (\<^verbatim>\<open>apikey_cipher.go\<close>), egress passwords (\<^verbatim>\<open>egress_cipher.go\<close>), and opaque tokens and recovery codes (\<^verbatim>\<open>tokens.go\<close>). Randomness is the sequence of
  bytes the reader still has, \<open>None\<close> for a nil reader; a reader that fails is one that has no more bytes. The hash, the
  keyed hash and the authenticated cipher are parameters: the properties hold for every choice that meets the stated
  laws. A 32-byte key is always accepted by \<^verbatim>\<open>aes.NewCipher\<close>, so the branches for its failure are absent.
\<close>

section \<open>API keys\<close>

datatype cred_error =
    ErrInvalidAPIKey | ErrPepperTooShort | ErrNilRandom | ErrShortRead
  | ErrInvalidToken | ErrInvalidTokenKind | ErrInvalidRecoveryCode | ErrRandomCollision | ErrTokenPepperTooShort
  | ErrInvalidAPIKeyEncryptionKey | ErrInvalidAPIKeyCiphertext | ErrInvalidEgressCiphertext

abbreviation APIKeyVersionPrefix :: string where "APIKeyVersionPrefix \<equiv> ''cgk_v1_''"
abbreviation APIKeyPublicIDBytes :: nat where "APIKeyPublicIDBytes \<equiv> 12"
abbreviation APIKeySecretBytes :: nat where "APIKeySecretBytes \<equiv> 32"
abbreviation MinimumPepperBytes :: nat where "MinimumPepperBytes \<equiv> 32"
abbreviation apiKeyPublicIDEncodedLen :: nat where "apiKeyPublicIDEncodedLen \<equiv> 16"
abbreviation apiKeySecretEncodedLen :: nat where "apiKeySecretEncodedLen \<equiv> 43"
abbreviation RedactedValue :: string where "RedactedValue \<equiv> ''[REDACTED]''"

abbreviation raw_url :: "string \<Rightarrow> string" where "raw_url \<equiv> encode 6 url_alphabet"
abbreviation raw_url_decode :: "string \<Rightarrow> string option" where "raw_url_decode \<equiv> decode 6 True url_alphabet"

record GeneratedAPIKey =
  gk_Token :: string
  gk_PublicID :: string
  gk_Prefix :: string

record ParsedAPIKey =
  pk_PublicID :: string
  pk_secret :: string
  pk_valid :: bool

text \<open>\<^verbatim>\<open>io.ReadFull\<close>\<close>

definition ReadFull :: "nat \<Rightarrow> string \<Rightarrow> cred_error + (string \<times> string)" where
  "ReadFull n random = (if length random < n then Inl ErrShortRead else Inr (take n random, drop n random))"

definition has_prefix :: "string \<Rightarrow> string \<Rightarrow> bool" where
  "has_prefix s p = (take (length p) s = p)"

definition GenerateAPIKeyFrom :: "string option \<Rightarrow> cred_error + GeneratedAPIKey" where
  "GenerateAPIKeyFrom random =
     (case random of
        None \<Rightarrow> Inl ErrNilRandom
      | Some bytes \<Rightarrow>
          (case ReadFull APIKeyPublicIDBytes bytes of
             Inl e \<Rightarrow> Inl e
           | Inr (publicID, bytes1) \<Rightarrow>
               (case ReadFull APIKeySecretBytes bytes1 of
                  Inl e \<Rightarrow> Inl e
                | Inr (secret, bytes2) \<Rightarrow>
                    let publicEncoded = raw_url publicID; secretEncoded = raw_url secret;
                        prefix = APIKeyVersionPrefix @ publicEncoded @ ''_'' in
                    Inr \<lparr>gk_Token = prefix @ secretEncoded, gk_PublicID = publicEncoded, gk_Prefix = prefix\<rparr>)))"

text \<open>\<open>canonical_raw n s\<close> decodes a text that is the encoding of exactly \<open>n\<close> bytes.\<close>

definition canonical_raw :: "nat \<Rightarrow> string \<Rightarrow> string option" where
  "canonical_raw n s =
     (case raw_url_decode s of
        None \<Rightarrow> None
      | Some raw \<Rightarrow> if length raw \<noteq> n \<or> raw_url raw \<noteq> s then None else Some raw)"

definition ParseAPIKey :: "string \<Rightarrow> cred_error + ParsedAPIKey" where
  "ParseAPIKey raw =
     (if length raw \<noteq> length APIKeyVersionPrefix + apiKeyPublicIDEncodedLen + 1 + apiKeySecretEncodedLen
         \<or> \<not> has_prefix raw APIKeyVersionPrefix then Inl ErrInvalidAPIKey
      else
        let remainder = drop (length APIKeyVersionPrefix) raw; separator = apiKeyPublicIDEncodedLen in
        if remainder ! separator \<noteq> CHR ''_'' then Inl ErrInvalidAPIKey
        else
          let publicEncoded = take separator remainder; secretEncoded = drop (separator + 1) remainder in
          (case canonical_raw APIKeyPublicIDBytes publicEncoded of
             None \<Rightarrow> Inl ErrInvalidAPIKey
           | Some publicRaw \<Rightarrow>
               (case canonical_raw APIKeySecretBytes secretEncoded of
                  None \<Rightarrow> Inl ErrInvalidAPIKey
                | Some secretRaw \<Rightarrow> Inr \<lparr>pk_PublicID = publicEncoded, pk_secret = secretRaw, pk_valid = True\<rparr>)))"

definition Prefix :: "ParsedAPIKey \<Rightarrow> string" where
  "Prefix k = (if \<not> pk_valid k then [] else APIKeyVersionPrefix @ pk_PublicID k @ ''_'')"

definition parsed_String :: "ParsedAPIKey \<Rightarrow> string" where
  "parsed_String k = (if Prefix k \<noteq> [] then Prefix k @ RedactedValue else RedactedValue)"

definition generated_String :: "GeneratedAPIKey \<Rightarrow> string" where
  "generated_String k = (if gk_Prefix k \<noteq> [] then gk_Prefix k @ RedactedValue else RedactedValue)"

definition HashParsedAPIKey ::
  "(string \<Rightarrow> string \<Rightarrow> string) \<Rightarrow> string \<Rightarrow> ParsedAPIKey \<Rightarrow> cred_error + string" where
  "HashParsedAPIKey hmac pepper key =
     (if length pepper < MinimumPepperBytes then Inl ErrPepperTooShort
      else if \<not> pk_valid key then Inl ErrInvalidAPIKey
      else Inr (hmac pepper (''codex-gateway/api-key/v1'' @ [CHR 0x00] @ pk_PublicID key @ [CHR 0x00] @ pk_secret key)))"

definition HashAPIKey :: "(string \<Rightarrow> string \<Rightarrow> string) \<Rightarrow> string \<Rightarrow> string \<Rightarrow> cred_error + string" where
  "HashAPIKey hmac pepper raw = (case ParseAPIKey raw of Inl e \<Rightarrow> Inl e | Inr k \<Rightarrow> HashParsedAPIKey hmac pepper k)"

definition VerifyParsedAPIKey ::
  "(string \<Rightarrow> string \<Rightarrow> string) \<Rightarrow> string \<Rightarrow> ParsedAPIKey \<Rightarrow> string \<Rightarrow> cred_error + bool" where
  "VerifyParsedAPIKey hmac pepper key expected =
     (case HashParsedAPIKey hmac pepper key of Inl e \<Rightarrow> Inl e | Inr actual \<Rightarrow> Inr (actual = expected))"

definition zero_key :: ParsedAPIKey where
  "zero_key = \<lparr>pk_PublicID = [], pk_secret = replicate 32 (CHR 0x00), pk_valid = False\<rparr>"

definition VerifyAPIKey ::
  "(string \<Rightarrow> string \<Rightarrow> string) \<Rightarrow> string \<Rightarrow> string \<Rightarrow> string \<Rightarrow> cred_error + (ParsedAPIKey \<times> bool)" where
  "VerifyAPIKey hmac pepper raw expected =
     (if length pepper < MinimumPepperBytes then Inl ErrPepperTooShort
      else
        case ParseAPIKey raw of
          Inl e \<Rightarrow> Inr (zero_key, False)
        | Inr key \<Rightarrow>
            (case VerifyParsedAPIKey hmac pepper key expected of Inl e \<Rightarrow> Inl e | Inr ok \<Rightarrow> Inr (key, ok)))"

definition APIKeyPrefixForLog :: "string \<Rightarrow> cred_error + string" where
  "APIKeyPrefixForLog raw = (case ParseAPIKey raw of Inl e \<Rightarrow> Inl e | Inr k \<Rightarrow> Inr (Prefix k))"

section \<open>Encrypted storage\<close>

text \<open>
  An authenticated cipher: \<open>seal key nonce plaintext data\<close> and \<open>open key nonce ciphertext data\<close>, with a 12-byte nonce
  and 16 bytes of overhead.
\<close>

record aead =
  aead_seal :: "string \<Rightarrow> string \<Rightarrow> string \<Rightarrow> string \<Rightarrow> string"
  aead_open :: "string \<Rightarrow> string \<Rightarrow> string \<Rightarrow> string \<Rightarrow> string option"

abbreviation APIKeyEncryptionKeyBytes :: nat where "APIKeyEncryptionKeyBytes \<equiv> 32"
abbreviation NonceSize :: nat where "NonceSize \<equiv> 12"
abbreviation Overhead :: nat where "Overhead \<equiv> 16"
abbreviation apiKeyCipherVersion :: char where "apiKeyCipherVersion \<equiv> CHR 0x01"

definition apiKeySecretAAD :: "string \<Rightarrow> string \<Rightarrow> string" where
  "apiKeySecretAAD userID publicID =
     ''codex-gateway/api-key-secret/v1'' @ [CHR 0x00] @ userID @ [CHR 0x00] @ publicID"

definition EncryptAPIKeySecretFrom ::
  "aead \<Rightarrow> string option \<Rightarrow> string \<Rightarrow> string \<Rightarrow> string \<Rightarrow> string \<Rightarrow> cred_error + string" where
  "EncryptAPIKeySecretFrom gcm random key userID publicID token =
     (if length key \<noteq> APIKeyEncryptionKeyBytes then Inl ErrInvalidAPIKeyEncryptionKey
      else
        case random of
          None \<Rightarrow> Inl ErrNilRandom
        | Some bytes \<Rightarrow>
            (case ParseAPIKey token of
               Inl e \<Rightarrow> Inl ErrInvalidAPIKey
             | Inr parsed \<Rightarrow>
                 if userID = [] \<or> publicID = [] \<or> pk_PublicID parsed \<noteq> publicID then Inl ErrInvalidAPIKey
                 else
                   (case ReadFull NonceSize bytes of
                      Inl e \<Rightarrow> Inl e
                    | Inr (nonce, rest) \<Rightarrow>
                        Inr (apiKeyCipherVersion # nonce @ aead_seal gcm key nonce token (apiKeySecretAAD userID publicID)))))"

definition DecryptAPIKeySecret :: "aead \<Rightarrow> string \<Rightarrow> string \<Rightarrow> string \<Rightarrow> string \<Rightarrow> cred_error + string" where
  "DecryptAPIKeySecret gcm key userID publicID envelope =
     (if length key \<noteq> APIKeyEncryptionKeyBytes then Inl ErrInvalidAPIKeyEncryptionKey
      else if userID = [] \<or> publicID = [] \<or> envelope = [] \<or> hd envelope \<noteq> apiKeyCipherVersion then Inl ErrInvalidAPIKeyCiphertext
      else if length envelope < 1 + NonceSize + Overhead then Inl ErrInvalidAPIKeyCiphertext
      else
        let nonce = take NonceSize (drop 1 envelope) in
        case aead_open gcm key nonce (drop (1 + NonceSize) envelope) (apiKeySecretAAD userID publicID) of
          None \<Rightarrow> Inl ErrInvalidAPIKeyCiphertext
        | Some token \<Rightarrow>
            (case ParseAPIKey token of
               Inl e \<Rightarrow> Inl ErrInvalidAPIKeyCiphertext
             | Inr parsed \<Rightarrow> if pk_PublicID parsed \<noteq> publicID then Inl ErrInvalidAPIKeyCiphertext else Inr token))"

text \<open>
  Passwords of egress nodes (\<^verbatim>\<open>egress_cipher.go\<close>) are sealed under a key derived by \<open>hkdf key info\<close>, a parameter that
  returns 32 bytes.
\<close>

definition egressCipher :: "(string \<Rightarrow> string \<Rightarrow> string) \<Rightarrow> string \<Rightarrow> cred_error + string" where
  "egressCipher hkdf key =
     (if length key \<noteq> 32 then Inl ErrInvalidEgressCiphertext else Inr (hkdf key ''codex-gateway/egress-encryption/v1''))"

definition egress_data :: "string \<Rightarrow> string" where
  "egress_data nodeID = ''codex-gateway/egress-password/v1'' @ [CHR 0x00] @ nodeID"

definition EncryptEgressPassword ::
  "aead \<Rightarrow> (string \<Rightarrow> string \<Rightarrow> string) \<Rightarrow> string \<Rightarrow> string \<Rightarrow> string \<Rightarrow> string \<Rightarrow> cred_error + string" where
  "EncryptEgressPassword gcm hkdf random key nodeID password =
     (case egressCipher hkdf key of
        Inl e \<Rightarrow> Inl e
      | Inr derived \<Rightarrow>
          if nodeID = [] \<or> password = [] then Inl ErrInvalidEgressCiphertext
          else
            (case ReadFull NonceSize random of
               Inl e \<Rightarrow> Inl e
             | Inr (nonce, rest) \<Rightarrow> Inr (CHR 0x01 # nonce @ aead_seal gcm derived nonce password (egress_data nodeID))))"

definition DecryptEgressPassword ::
  "aead \<Rightarrow> (string \<Rightarrow> string \<Rightarrow> string) \<Rightarrow> string \<Rightarrow> string \<Rightarrow> string \<Rightarrow> cred_error + string" where
  "DecryptEgressPassword gcm hkdf key nodeID envelope =
     (case egressCipher hkdf key of
        Inl e \<Rightarrow> Inl e
      | Inr derived \<Rightarrow>
          if nodeID = [] \<or> length envelope < 1 + NonceSize + Overhead \<or> hd envelope \<noteq> CHR 0x01
          then Inl ErrInvalidEgressCiphertext
          else
            (case aead_open gcm derived (take NonceSize (drop 1 envelope)) (drop (1 + NonceSize) envelope) (egress_data nodeID) of
               None \<Rightarrow> Inl ErrInvalidEgressCiphertext
             | Some plaintext \<Rightarrow> Inr plaintext))"

section \<open>Opaque tokens\<close>

type_synonym TokenKind = "8 word"

abbreviation InvitationToken :: TokenKind where "InvitationToken \<equiv> 1"
abbreviation SessionToken :: TokenKind where "SessionToken \<equiv> 2"
abbreviation RecoveryToken :: TokenKind where "RecoveryToken \<equiv> 3"
abbreviation OpaqueTokenBytes :: nat where "OpaqueTokenBytes \<equiv> 32"

definition kind_prefix :: "TokenKind \<Rightarrow> string option" where
  "kind_prefix k =
     (if k = InvitationToken then Some ''cgi_v1_'' else if k = SessionToken then Some ''cgs_v1_''
      else if k = RecoveryToken then Some ''cgr_v1_'' else None)"

definition kind_domain :: "TokenKind \<Rightarrow> string option" where
  "kind_domain k =
     (if k = InvitationToken then Some ''codex-gateway/invitation-token/v1''
      else if k = SessionToken then Some ''codex-gateway/session-token/v1''
      else if k = RecoveryToken then Some ''codex-gateway/recovery-token/v1'' else None)"

definition PepperTokenDigest ::
  "(string \<Rightarrow> string \<Rightarrow> string) \<Rightarrow> string \<Rightarrow> string \<Rightarrow> cred_error + string" where
  "PepperTokenDigest hmac pepper digest =
     (if length pepper < MinimumPepperBytes then Inl ErrTokenPepperTooShort
      else Inr (hmac pepper (''codex-gateway/token-digest-pepper/v1'' @ [CHR 0x00] @ digest)))"

definition domainDigest :: "(string \<Rightarrow> string) \<Rightarrow> string \<Rightarrow> string \<Rightarrow> string" where
  "domainDigest sha domain val = sha (domain @ [CHR 0x00] @ val)"

definition DigestOpaqueToken :: "(string \<Rightarrow> string) \<Rightarrow> TokenKind \<Rightarrow> string \<Rightarrow> cred_error + string" where
  "DigestOpaqueToken sha kind token =
     (case kind_prefix kind of
        None \<Rightarrow> Inl ErrInvalidTokenKind
      | Some prefix \<Rightarrow>
          let domain = (case kind_domain kind of None \<Rightarrow> [] | Some d \<Rightarrow> d) in
          if length token \<noteq> length prefix + 43 \<or> \<not> has_prefix token prefix then Inl ErrInvalidToken
          else
            (case canonical_raw OpaqueTokenBytes (drop (length prefix) token) of
               None \<Rightarrow> Inl ErrInvalidToken
             | Some raw \<Rightarrow> Inr (domainDigest sha domain token)))"

record GeneratedToken =
  gt_Token :: string
  gt_Digest :: string

definition GenerateOpaqueTokenFrom ::
  "(string \<Rightarrow> string) \<Rightarrow> TokenKind \<Rightarrow> string option \<Rightarrow> cred_error + GeneratedToken" where
  "GenerateOpaqueTokenFrom sha kind random =
     (case kind_prefix kind of
        None \<Rightarrow> Inl ErrInvalidTokenKind
      | Some prefix \<Rightarrow>
          (case random of
             None \<Rightarrow> Inl ErrNilRandom
           | Some bytes \<Rightarrow>
               (case ReadFull OpaqueTokenBytes bytes of
                  Inl e \<Rightarrow> Inl e
                | Inr (entropy, rest) \<Rightarrow>
                    let token = prefix @ raw_url entropy in
                    (case DigestOpaqueToken sha kind token of
                       Inl e \<Rightarrow> Inl e
                     | Inr digest \<Rightarrow> Inr \<lparr>gt_Token = token, gt_Digest = digest\<rparr>))))"

definition VerifyOpaqueToken :: "(string \<Rightarrow> string) \<Rightarrow> TokenKind \<Rightarrow> string \<Rightarrow> string \<Rightarrow> bool" where
  "VerifyOpaqueToken sha kind token expected =
     (case DigestOpaqueToken sha kind token of Inl e \<Rightarrow> False | Inr actual \<Rightarrow> actual = expected)"

definition token_String :: "GeneratedToken \<Rightarrow> string" where
  "token_String t = RedactedValue"

section \<open>Recovery codes\<close>

abbreviation RecoveryCodeCount :: nat where "RecoveryCodeCount \<equiv> 10"
abbreviation RecoveryCodeBytes :: nat where "RecoveryCodeBytes \<equiv> 15"
abbreviation recoveryCodeRawLength :: nat where "recoveryCodeRawLength \<equiv> 24"
abbreviation recovery_encode :: "string \<Rightarrow> string" where "recovery_encode \<equiv> encode 5 crockford_alphabet"
abbreviation recovery_decode :: "string \<Rightarrow> string option" where "recovery_decode \<equiv> decode 5 False crockford_alphabet"

text \<open>\<open>i\<close> is the index of the next character.\<close>

fun group_from :: "nat \<Rightarrow> string \<Rightarrow> string" where
  "group_from i [] = []"
| "group_from i (c # s) = (if 0 < i \<and> i mod 4 = 0 then [CHR ''-''] else []) @ c # group_from (i + 1) s"

definition groupRecoveryCode :: "string \<Rightarrow> string" where
  "groupRecoveryCode raw = group_from 0 raw"

fun ungroup_from :: "nat \<Rightarrow> string \<Rightarrow> string option" where
  "ungroup_from i [] = Some []"
| "ungroup_from i (c # s) =
     (if (i + 1) mod 5 = 0 then (if c \<noteq> CHR ''-'' then None else ungroup_from (i + 1) s)
      else if c \<notin> set crockford_alphabet then None
      else map_option (\<lambda>r. c # r) (ungroup_from (i + 1) s))"

definition ungroupRecoveryCode :: "string \<Rightarrow> string option" where
  "ungroupRecoveryCode code =
     (if length code \<noteq> recoveryCodeRawLength + 5 then None
      else
        case ungroup_from 0 code of
          None \<Rightarrow> None
        | Some raw \<Rightarrow> if length raw \<noteq> recoveryCodeRawLength then None else Some raw)"

definition DigestRecoveryCode :: "(string \<Rightarrow> string) \<Rightarrow> string \<Rightarrow> cred_error + string" where
  "DigestRecoveryCode sha code =
     (case ungroupRecoveryCode code of
        None \<Rightarrow> Inl ErrInvalidRecoveryCode
      | Some raw \<Rightarrow>
          (case recovery_decode raw of
             None \<Rightarrow> Inl ErrInvalidRecoveryCode
           | Some decoded \<Rightarrow>
               if length decoded \<noteq> RecoveryCodeBytes \<or> recovery_encode decoded \<noteq> raw then Inl ErrInvalidRecoveryCode
               else Inr (domainDigest sha ''codex-gateway/recovery-code/v1'' code)))"

definition VerifyRecoveryCode :: "(string \<Rightarrow> string) \<Rightarrow> string \<Rightarrow> string \<Rightarrow> bool" where
  "VerifyRecoveryCode sha code expected =
     (case DigestRecoveryCode sha code of Inl e \<Rightarrow> False | Inr actual \<Rightarrow> actual = expected)"

text \<open>The loop ends when the list is full; \<open>codes\<close> are the codes generated so far.\<close>

function recovery_loop ::
  "(string \<Rightarrow> string) \<Rightarrow> string \<Rightarrow> (string \<times> string) list \<Rightarrow> cred_error + (string \<times> string) list" where
  "recovery_loop sha random codes =
     (if \<not> length codes < RecoveryCodeCount then Inr codes
      else
        case ReadFull RecoveryCodeBytes random of
          Inl e \<Rightarrow> Inl e
        | Inr (entropy, rest) \<Rightarrow>
            let code = groupRecoveryCode (recovery_encode entropy) in
            if code \<in> set (map fst codes) then Inl ErrRandomCollision
            else
              (case DigestRecoveryCode sha code of
                 Inl e \<Rightarrow> Inl e
               | Inr digest \<Rightarrow> recovery_loop sha rest (codes @ [(code, digest)])))"
  by auto
termination by (relation "measure (\<lambda>(sha, random, codes). RecoveryCodeCount - length codes)") auto

declare recovery_loop.simps [simp del]

definition GenerateRecoveryCodesFrom :: "(string \<Rightarrow> string) \<Rightarrow> string option \<Rightarrow> cred_error + (string \<times> string) list" where
  "GenerateRecoveryCodesFrom sha random =
     (case random of None \<Rightarrow> Inl ErrNilRandom | Some bytes \<Rightarrow> recovery_loop sha bytes [])"

text \<open>The text of the API key with the given public and secret bytes.\<close>

definition key_text :: "string \<Rightarrow> string \<Rightarrow> string" where
  "key_text pub sec = APIKeyVersionPrefix @ raw_url pub @ ''_'' @ raw_url sec"

section \<open>Laws of the formats\<close>

lemma raw_url_length_12: "length bs = 12 \<Longrightarrow> length (raw_url bs) = 16"
proof -
  assume "length bs = 12"
  then obtain z where "z < 6" "length (raw_url bs) * 6 = 96 + z" using b64.encode_length [of bs] by auto
  then show ?thesis by presburger
qed

lemma raw_url_length_32: "length bs = 32 \<Longrightarrow> length (raw_url bs) = 43"
proof -
  assume "length bs = 32"
  then obtain z where "z < 6" "length (raw_url bs) * 6 = 256 + z" using b64.encode_length [of bs] by auto
  then show ?thesis by presburger
qed

lemma recovery_length: "length bs = 15 \<Longrightarrow> length (recovery_encode bs) = 24"
proof -
  assume "length bs = 15"
  then obtain z where "z < 5" "length (recovery_encode bs) * 5 = 120 + z" using b32.encode_length [of bs] by auto
  then show ?thesis by presburger
qed

lemmas format_lengths = raw_url_length_12 raw_url_length_32 recovery_length

lemma raw_url_inject: "raw_url a = raw_url b \<longleftrightarrow> a = b"
  by (metis b64.decode_encode option.inject)

lemma canonical_raw_iff: "canonical_raw n s = Some raw \<longleftrightarrow> length raw = n \<and> s = raw_url raw"
proof (cases "raw_url_decode s")
  case None
  then show ?thesis unfolding canonical_raw_def using b64.decode_encode [of True raw] by auto
next
  case (Some r)
  have "r = raw" if "s = raw_url raw" using Some b64.decode_encode [of True raw] unfolding that by (metis option.inject)
  then show ?thesis unfolding canonical_raw_def Some option.case by (metis option.distinct(1) option.inject)
qed

lemma canonical_raw_encode [simp]: "canonical_raw (length raw) (raw_url raw) = Some raw"
  by (simp add: canonical_raw_iff)

lemma ReadFull_Inr: "ReadFull n random = Inr (a, rest) \<longleftrightarrow> length a = n \<and> random = a @ rest"
  unfolding ReadFull_def by auto

lemma has_prefix_append [simp]: "has_prefix (p @ s) p"
  by (simp add: has_prefix_def)

lemma has_prefix_iff: "has_prefix s p \<longleftrightarrow> (\<exists>t. s = p @ t)"
  unfolding has_prefix_def by (metis append_eq_conv_conj append_take_drop_id)

lemma ParseAPIKey_iff:
  "ParseAPIKey t = Inr k \<longleftrightarrow>
     (\<exists>pub sec. length pub = 12 \<and> length sec = 32 \<and> t = key_text pub sec
        \<and> k = \<lparr>pk_PublicID = raw_url pub, pk_secret = sec, pk_valid = True\<rparr>)"
proof
  assume p: "ParseAPIKey t = Inr k"
  let ?r = "drop (length APIKeyVersionPrefix) t"
  have len: "length t = 67" and pre: "has_prefix t APIKeyVersionPrefix" and sep: "?r ! 16 = CHR ''_''"
    using p unfolding ParseAPIKey_def Let_def by (auto split: if_splits)
  obtain pub sec where d: "canonical_raw 12 (take 16 ?r) = Some pub" "canonical_raw 32 (drop 17 ?r) = Some sec"
    and k: "k = \<lparr>pk_PublicID = take 16 ?r, pk_secret = sec, pk_valid = True\<rparr>"
    using p unfolding ParseAPIKey_def Let_def by (auto split: if_splits option.splits)
  have "?r = take 16 ?r @ ?r ! 16 # drop 17 ?r" using len id_take_nth_drop [of 16 ?r] by simp
  moreover have "t = APIKeyVersionPrefix @ ?r" using pre unfolding has_prefix_iff by auto
  ultimately have "t = key_text pub sec" using d sep unfolding canonical_raw_iff key_text_def by simp
  then show "\<exists>pub sec. length pub = 12 \<and> length sec = 32 \<and> t = key_text pub sec
        \<and> k = \<lparr>pk_PublicID = raw_url pub, pk_secret = sec, pk_valid = True\<rparr>"
    using d k unfolding canonical_raw_iff by blast
next
  assume "\<exists>pub sec. length pub = 12 \<and> length sec = 32 \<and> t = key_text pub sec
        \<and> k = \<lparr>pk_PublicID = raw_url pub, pk_secret = sec, pk_valid = True\<rparr>"
  then obtain pub sec where l: "length pub = 12" "length sec = 32" and t: "t = key_text pub sec"
    and k: "k = \<lparr>pk_PublicID = raw_url pub, pk_secret = sec, pk_valid = True\<rparr>" by blast
  have c: "canonical_raw 12 (raw_url pub) = Some pub" "canonical_raw 32 (raw_url sec) = Some sec"
    using l unfolding canonical_raw_iff by simp_all
  show "ParseAPIKey t = Inr k"
    using l c unfolding ParseAPIKey_def Let_def t k key_text_def
    by (simp add: format_lengths has_prefix_def nth_append)
qed

lemma ParseAPIKey_key_text:
  "length pub = 12 \<Longrightarrow> length sec = 32 \<Longrightarrow>
     ParseAPIKey (key_text pub sec) = Inr \<lparr>pk_PublicID = raw_url pub, pk_secret = sec, pk_valid = True\<rparr>"
  unfolding ParseAPIKey_iff by blast

lemma GenerateAPIKeyFrom_iff:
  "GenerateAPIKeyFrom (Some bytes) = Inr g \<longleftrightarrow>
     (\<exists>pub sec rest. length pub = 12 \<and> length sec = 32 \<and> bytes = pub @ sec @ rest
        \<and> g = \<lparr>gk_Token = key_text pub sec, gk_PublicID = raw_url pub, gk_Prefix = APIKeyVersionPrefix @ raw_url pub @ ''_''\<rparr>)"
proof
  assume g: "GenerateAPIKeyFrom (Some bytes) = Inr g"
  obtain pub b1 where 1: "ReadFull 12 bytes = Inr (pub, b1)"
    using g unfolding GenerateAPIKeyFrom_def by (cases "ReadFull 12 bytes") auto
  obtain sec rest where 2: "ReadFull 32 b1 = Inr (sec, rest)"
    using g 1 unfolding GenerateAPIKeyFrom_def by (cases "ReadFull 32 b1") auto
  have "g = \<lparr>gk_Token = key_text pub sec, gk_PublicID = raw_url pub, gk_Prefix = APIKeyVersionPrefix @ raw_url pub @ ''_''\<rparr>"
    using g unfolding GenerateAPIKeyFrom_def Let_def by (simp add: 1 2 key_text_def)
  then show "\<exists>pub sec rest. length pub = 12 \<and> length sec = 32 \<and> bytes = pub @ sec @ rest
        \<and> g = \<lparr>gk_Token = key_text pub sec, gk_PublicID = raw_url pub, gk_Prefix = APIKeyVersionPrefix @ raw_url pub @ ''_''\<rparr>"
    using 1 2 unfolding ReadFull_Inr by blast
next
  assume "\<exists>pub sec rest. length pub = 12 \<and> length sec = 32 \<and> bytes = pub @ sec @ rest
        \<and> g = \<lparr>gk_Token = key_text pub sec, gk_PublicID = raw_url pub, gk_Prefix = APIKeyVersionPrefix @ raw_url pub @ ''_''\<rparr>"
  then obtain pub sec rest where r: "ReadFull 12 bytes = Inr (pub, sec @ rest)" "ReadFull 32 (sec @ rest) = Inr (sec, rest)"
    and g: "g = \<lparr>gk_Token = key_text pub sec, gk_PublicID = raw_url pub, gk_Prefix = APIKeyVersionPrefix @ raw_url pub @ ''_''\<rparr>"
    unfolding ReadFull_Inr by blast
  show "GenerateAPIKeyFrom (Some bytes) = Inr g"
    unfolding GenerateAPIKeyFrom_def g Let_def by (simp add: r key_text_def)
qed

section \<open>Laws of opaque tokens\<close>

lemma kind_cases:
  assumes "kind_prefix k = Some p"
  obtains "k = InvitationToken" "p = ''cgi_v1_''" "kind_domain k = Some ''codex-gateway/invitation-token/v1''"
    | "k = SessionToken" "p = ''cgs_v1_''" "kind_domain k = Some ''codex-gateway/session-token/v1''"
    | "k = RecoveryToken" "p = ''cgr_v1_''" "kind_domain k = Some ''codex-gateway/recovery-token/v1''"
  using assms unfolding kind_prefix_def kind_domain_def by (auto split: if_splits)

lemma kind_prefix_length: "kind_prefix k = Some p \<Longrightarrow> length p = 7"
  by (erule kind_cases) simp_all

lemma kind_prefix_inject:
  assumes "kind_prefix k = Some p" and "kind_prefix k' = Some p'" and "p @ s = p' @ s'"
  shows "k = k'"
  using assms(1)
proof (cases rule: kind_cases)
  case 1
  show ?thesis using assms(2) by (cases rule: kind_cases) (use 1 assms(3) in simp_all)
next
  case 2
  show ?thesis using assms(2) by (cases rule: kind_cases) (use 2 assms(3) in simp_all)
next
  case 3
  show ?thesis using assms(2) by (cases rule: kind_cases) (use 3 assms(3) in simp_all)
qed

lemma DigestOpaqueToken_Inr:
  assumes "DigestOpaqueToken sha kind t = Inr d"
  obtains p dn raw where "kind_prefix kind = Some p" "kind_domain kind = Some dn" "length raw = 32"
    "t = p @ raw_url raw" "d = domainDigest sha dn t"
proof -
  obtain p where p: "kind_prefix kind = Some p" using assms unfolding DigestOpaqueToken_def by (cases "kind_prefix kind") auto
  obtain dn where dn: "kind_domain kind = Some dn" using p by (rule kind_cases) auto
  have pre: "has_prefix t p" using assms p unfolding DigestOpaqueToken_def Let_def by (auto split: if_splits)
  obtain raw where c: "canonical_raw 32 (drop (length p) t) = Some raw" and d: "d = domainDigest sha dn t"
    using assms p dn unfolding DigestOpaqueToken_def Let_def by (auto split: if_splits option.splits)
  have "t = p @ raw_url raw" using pre c unfolding has_prefix_iff canonical_raw_iff by auto
  then show ?thesis using that p dn c d unfolding canonical_raw_iff by blast
qed

lemma DigestOpaqueToken_text:
  assumes "kind_prefix kind = Some p" and "kind_domain kind = Some dn" and "length raw = 32"
  shows "DigestOpaqueToken sha kind (p @ raw_url raw) = Inr (domainDigest sha dn (p @ raw_url raw))"
proof -
  have "canonical_raw 32 (raw_url raw) = Some raw" using assms(3) unfolding canonical_raw_iff by simp
  then show ?thesis unfolding DigestOpaqueToken_def assms(1,2) option.case Let_def using assms(3) by (simp add: format_lengths)
qed

section \<open>Laws of recovery codes\<close>

text \<open>Where the reader of a grouped code stands when the next letter has index \<open>i\<close>.\<close>

definition group_place :: "nat \<Rightarrow> nat \<Rightarrow> bool" where
  "group_place i j = (j mod 5 = (if 0 < i \<and> i mod 4 = 0 then 4 else i mod 4))"

lemma group_place_step:
  assumes "group_place i j"
  shows "0 < i \<and> i mod 4 = 0 \<Longrightarrow> (j + 1) mod 5 = 0 \<and> (j + 2) mod 5 \<noteq> 0 \<and> group_place (i + 1) (j + 2)"
    and "\<not> (0 < i \<and> i mod 4 = 0) \<Longrightarrow> (j + 1) mod 5 \<noteq> 0 \<and> group_place (i + 1) (j + 1)"
proof -
  have m: "i mod 4 < 4" "Suc i mod 4 = (if i mod 4 = 3 then 0 else Suc (i mod 4))"
    "Suc j mod 5 = (if j mod 5 = 4 then 0 else Suc (j mod 5))" by (simp_all add: mod_Suc)
  show "(j + 1) mod 5 = 0 \<and> (j + 2) mod 5 \<noteq> 0 \<and> group_place (i + 1) (j + 2)" if "0 < i \<and> i mod 4 = 0"
    using assms that unfolding group_place_def by (simp add: mod_Suc)
  show "(j + 1) mod 5 \<noteq> 0 \<and> group_place (i + 1) (j + 1)" if "\<not> (0 < i \<and> i mod 4 = 0)"
    using assms m unfolding group_place_def if_not_P [OF that] by simp
qed

lemma ungroup_group:
  "group_place i j \<Longrightarrow> set s \<subseteq> set crockford_alphabet \<Longrightarrow> ungroup_from j (group_from i s) = Some s"
proof (induction s arbitrary: i j)
  case (Cons c s)
  show ?case
  proof (cases "0 < i \<and> i mod 4 = 0")
    case True
    note p = group_place_step(1) [OF Cons.prems(1) True]
    show ?thesis using True p Cons.IH [of "i + 1" "j + 2"] Cons.prems(2) by simp
  next
    case False
    note p = group_place_step(2) [OF Cons.prems(1) False]
    show ?thesis using p Cons.IH [of "i + 1" "j + 1"] Cons.prems(2) by (simp add: if_not_P [OF False])
  qed
qed simp

lemma group_ungroup:
  "group_place i j \<Longrightarrow> ungroup_from j t = Some r \<Longrightarrow>
     set r \<subseteq> set crockford_alphabet \<and> (t = group_from i r \<or> t = group_from i r @ ''-'')"
proof (induction "length t" arbitrary: i j t r rule: less_induct)
  case less
  show ?case
  proof (cases t)
    case Nil
    then show ?thesis using less.prems by simp
  next
    case (Cons c u)
    show ?thesis
    proof (cases "0 < i \<and> i mod 4 = 0")
      case False
      note p = group_place_step(2) [OF less.prems(1) False]
      obtain r' where r: "r = c # r'" "c \<in> set crockford_alphabet" "ungroup_from (j + 1) u = Some r'"
        using less.prems(2) p unfolding Cons by (auto split: if_splits)
      then show ?thesis using less.hyps [of u "i + 1" "j + 1" r'] p Cons by (auto simp: if_not_P [OF False])
    next
      case True
      note p = group_place_step(1) [OF less.prems(1) True]
      have c: "c = CHR ''-''" and u: "ungroup_from (j + 1) u = Some r"
        using less.prems(2) p unfolding Cons by (auto split: if_splits)
      show ?thesis
      proof (cases u)
        case Nil
        then show ?thesis using u c Cons by simp
      next
        case (Cons e v)
        obtain r' where r: "r = e # r'" "e \<in> set crockford_alphabet" "ungroup_from (j + 2) v = Some r'"
          using u p unfolding Cons by (auto split: if_splits)
        then show ?thesis using less.hyps [of v "i + 1" "j + 2" r'] p c Cons True \<open>t = c # u\<close> by auto
      qed
    qed
  qed
qed

lemma length_group_from: "0 < i \<Longrightarrow> length (group_from i s) + (i + 3) div 4 = length s + (i + length s + 3) div 4"
proof (induction s arbitrary: i)
  case (Cons c s)
  have "length (group_from (i + 1) s) + (i + 4) div 4 = length s + (i + length s + 4) div 4"
    using Cons.IH [of "i + 1"] by (simp add: algebra_simps)
  moreover have "(i + 4) div 4 = (i + 3) div 4 + (if i mod 4 = 0 then 1 else 0)" by presburger
  ultimately show ?case using Cons.prems by (simp add: algebra_simps split: if_splits)
qed simp

lemma length_groupRecoveryCode: "length s = 24 \<Longrightarrow> length (groupRecoveryCode s) = 29"
proof (cases s)
  case (Cons c u)
  moreover assume "length s = 24"
  ultimately show ?thesis using length_group_from [of 1 u] by (simp add: groupRecoveryCode_def)
qed simp

lemma ungroupRecoveryCode_iff:
  "ungroupRecoveryCode c = Some raw \<longleftrightarrow>
     length raw = 24 \<and> set raw \<subseteq> set crockford_alphabet \<and> c = groupRecoveryCode raw"
proof
  assume u: "ungroupRecoveryCode c = Some raw"
  have f: "ungroup_from 0 c = Some raw" and l: "length raw = 24" "length c = 29"
    using u unfolding ungroupRecoveryCode_def by (auto split: if_splits option.splits)
  have "group_place 0 0" by (simp add: group_place_def)
  from group_ungroup [OF this f] show "length raw = 24 \<and> set raw \<subseteq> set crockford_alphabet \<and> c = groupRecoveryCode raw"
    using l length_groupRecoveryCode [OF l(1)] unfolding groupRecoveryCode_def by auto
next
  assume a: "length raw = 24 \<and> set raw \<subseteq> set crockford_alphabet \<and> c = groupRecoveryCode raw"
  have "group_place 0 0" by (simp add: group_place_def)
  from ungroup_group [OF this] show "ungroupRecoveryCode c = Some raw"
    using a length_groupRecoveryCode [of raw] unfolding ungroupRecoveryCode_def by (simp add: groupRecoveryCode_def)
qed

definition recovery_code :: "string \<Rightarrow> string" where
  "recovery_code entropy = groupRecoveryCode (recovery_encode entropy)"

lemma recovery_code_inject:
  assumes "length a = 15" and "length b = 15" and "recovery_code a = recovery_code b"
  shows "a = b"
proof -
  have "ungroupRecoveryCode (recovery_code x) = Some (recovery_encode x)" if "length x = 15" for x
    unfolding ungroupRecoveryCode_iff recovery_code_def using recovery_length [OF that] b32.encode_letters by blast
  then have "recovery_encode a = recovery_encode b" using assms by (metis option.inject)
  then show ?thesis by (metis b32.decode_encode option.inject)
qed

lemma DigestRecoveryCode_code:
  assumes "length b = 15"
  shows "DigestRecoveryCode sha (recovery_code b) = Inr (domainDigest sha ''codex-gateway/recovery-code/v1'' (recovery_code b))"
proof -
  have "ungroupRecoveryCode (recovery_code b) = Some (recovery_encode b)"
    unfolding ungroupRecoveryCode_iff recovery_code_def using recovery_length [OF assms] b32.encode_letters by blast
  then show ?thesis unfolding DigestRecoveryCode_def using assms by (simp add: b32.decode_encode)
qed

end
