(* ===== verification/Credential_Properties.thy ===== *)
theory Credential_Properties
  imports Credentials
begin

text \<open>
  What the credential formats promise: parsing accepts exactly what generation writes, the kinds of token are disjoint, a
  stored digest identifies its key up to a collision of the keyed hash, sealed secrets open only under their own
  identifiers, log texts carry no secret byte, and the recovery-code loop returns ten usable codes.
\<close>

section \<open>The recovery-code loop\<close>

definition recovery_pair :: "(string \<Rightarrow> string) \<Rightarrow> string \<Rightarrow> string \<times> string" where
  "recovery_pair sha b = (recovery_code b, domainDigest sha ''codex-gateway/recovery-code/v1'' (recovery_code b))"

lemma fst_recovery_pair [simp]: "fst (recovery_pair sha b) = recovery_code b"
  by (simp add: recovery_pair_def)

lemma recovery_pair_verifies: "length b = 15 \<Longrightarrow> VerifyRecoveryCode sha (recovery_code b) (snd (recovery_pair sha b))"
  by (simp add: VerifyRecoveryCode_def DigestRecoveryCode_code recovery_pair_def)

lemma recovery_loop_step:
  assumes "length codes < 10" and "length b = 15"
  shows "recovery_loop sha (b @ rest) codes =
     (if recovery_code b \<in> set (map fst codes) then Inl ErrRandomCollision
      else recovery_loop sha rest (codes @ [recovery_pair sha b]))"
proof -
  have "ReadFull 15 (b @ rest) = Inr (b, rest)" using assms(2) by (simp add: ReadFull_Inr)
  then show ?thesis
    using assms DigestRecoveryCode_code [OF assms(2), of sha]
    by (subst recovery_loop.simps) (simp add: Let_def recovery_pair_def recovery_code_def)
qed

lemma recovery_loop_full: "\<not> length codes < 10 \<Longrightarrow> recovery_loop sha random codes = Inr codes"
  by (subst recovery_loop.simps) simp

lemma recovery_loop_short: "length codes < 10 \<Longrightarrow> length random < 15 \<Longrightarrow> recovery_loop sha random codes = Inl ErrShortRead"
  by (subst recovery_loop.simps) (simp add: ReadFull_def)

text \<open>With \<open>n\<close> codes still to make, the loop succeeds exactly on \<open>n\<close> new blocks of entropy.\<close>

lemma recovery_loop_result:
  assumes "length codes + n = 10" and "distinct (map fst codes)"
  shows "recovery_loop sha random codes = Inr r \<Longrightarrow> r = codes @ map (recovery_pair sha) (chunk 15 (take (15 * n) random))"
    and "(\<exists>r. recovery_loop sha random codes = Inr r) \<longleftrightarrow>
      15 * n \<le> length random \<and> distinct (map fst codes @ map recovery_code (chunk 15 (take (15 * n) random)))"
proof -
  have "(15 * n \<le> length random \<and> distinct (map fst codes @ map recovery_code (chunk 15 (take (15 * n) random))) \<longrightarrow>
        recovery_loop sha random codes = Inr (codes @ map (recovery_pair sha) (chunk 15 (take (15 * n) random))))
      \<and> (\<not> (15 * n \<le> length random \<and> distinct (map fst codes @ map recovery_code (chunk 15 (take (15 * n) random)))) \<longrightarrow>
        (\<exists>e. recovery_loop sha random codes = Inl e))"
    using assms
  proof (induction n arbitrary: random codes)
    case 0
    then show ?case by (simp add: recovery_loop_full)
  next
    case (Suc n)
    show ?case
    proof (cases "length random < 15")
      case True
      then show ?thesis using Suc.prems by (simp add: recovery_loop_short)
    next
      case False
      define b where "b = take 15 random"
      define rest where "rest = drop 15 random"
      have b: "length b = 15" "random = b @ rest" using False by (simp_all add: b_def rest_def)
      have c: "chunk 15 (take (15 * Suc n) random) = b # chunk 15 (take (15 * n) rest)"
        using chunk_append [of b 15] b by simp
      have step: "recovery_loop sha random codes =
          (if recovery_code b \<in> set (map fst codes) then Inl ErrRandomCollision
           else recovery_loop sha rest (codes @ [recovery_pair sha b]))"
        unfolding b(2) using Suc.prems by (intro recovery_loop_step b(1)) simp
      show ?thesis
      proof (cases "recovery_code b \<in> set (map fst codes)")
        case True
        then show ?thesis unfolding step c by simp
      next
        case new: False
        have "length (codes @ [recovery_pair sha b]) + n = 10" "distinct (map fst (codes @ [recovery_pair sha b]))"
          using Suc.prems new by simp_all
        from Suc.IH [OF this, of rest] show ?thesis unfolding step c if_not_P [OF new] using b by simp
      qed
    qed
  qed
  then show "recovery_loop sha random codes = Inr r \<Longrightarrow> r = codes @ map (recovery_pair sha) (chunk 15 (take (15 * n) random))"
    and "(\<exists>r. recovery_loop sha random codes = Inr r) \<longleftrightarrow>
      15 * n \<le> length random \<and> distinct (map fst codes @ map recovery_code (chunk 15 (take (15 * n) random)))"
    by force+
qed

lemma chunk_lengths: "length xs = k * n \<Longrightarrow> 0 < k \<Longrightarrow> length (chunk k xs) = n \<and> (\<forall>c \<in> set (chunk k xs). length c = k)"
proof (induction n arbitrary: xs)
  case (Suc n)
  have "chunk k (take k xs @ drop k xs) = take k xs # chunk k (drop k xs)"
    using Suc.prems by (intro chunk_append) auto
  then show ?case using Suc.IH [of "drop k xs"] Suc.prems by simp
qed simp

lemma distinct_recovery_codes:
  "(\<And>b. b \<in> set bs \<Longrightarrow> length b = 15) \<Longrightarrow> distinct (map recovery_code bs) \<longleftrightarrow> distinct bs"
  unfolding distinct_map by (auto intro!: inj_onI recovery_code_inject)

section \<open>Messages and envelopes\<close>

definition key_message :: "string \<Rightarrow> string \<Rightarrow> string" where
  "key_message pub sec = ''codex-gateway/api-key/v1'' @ [CHR 0x00] @ raw_url pub @ [CHR 0x00] @ sec"

lemma key_message_inject:
  assumes "length pub = 12" and "length pub' = 12" and "key_message pub' sec' = key_message pub sec"
  shows "pub' = pub \<and> sec' = sec"
proof -
  have "raw_url pub' @ CHR 0x00 # sec' = raw_url pub @ CHR 0x00 # sec" using assms(3) by (simp add: key_message_def)
  moreover have "length (raw_url pub') = length (raw_url pub)" using assms by (simp add: format_lengths)
  ultimately show ?thesis by (simp add: raw_url_inject)
qed








section \<open>Properties\<close>

text \<open>
  C10: \<open>ParseAPIKey\<close> accepts a text exactly when some source of entropy makes \<open>GenerateAPIKeyFrom\<close> write it, and it
  then returns that key's public identifier and the very secret bytes that were drawn. No other spelling of a key is
  accepted.
\<close>

theorem ParseAPIKey_accepts_generated:
  "ParseAPIKey t = Inr k \<longleftrightarrow>
     (\<exists>pub sec g. length pub = APIKeyPublicIDBytes \<and> length sec = APIKeySecretBytes
        \<and> GenerateAPIKeyFrom (Some (pub @ sec)) = Inr g \<and> gk_Token g = t
        \<and> k = \<lparr>pk_PublicID = gk_PublicID g, pk_secret = sec, pk_valid = True\<rparr>)"
proof -
  have gen: "GenerateAPIKeyFrom (Some (pub @ sec)) =
      Inr \<lparr>gk_Token = key_text pub sec, gk_PublicID = raw_url pub, gk_Prefix = APIKeyVersionPrefix @ raw_url pub @ ''_''\<rparr>"
    if "length pub = 12" "length sec = 32" for pub sec
    unfolding GenerateAPIKeyFrom_iff using that by (intro exI [of _ pub] exI [of _ sec] exI [of _ "[]"]) simp
  have "(\<exists>g. length pub = 12 \<and> length sec = 32 \<and> GenerateAPIKeyFrom (Some (pub @ sec)) = Inr g \<and> gk_Token g = t
        \<and> k = \<lparr>pk_PublicID = gk_PublicID g, pk_secret = sec, pk_valid = True\<rparr>) \<longleftrightarrow>
      length pub = 12 \<and> length sec = 32 \<and> t = key_text pub sec
        \<and> k = \<lparr>pk_PublicID = raw_url pub, pk_secret = sec, pk_valid = True\<rparr>" for pub sec
    using gen [of pub sec] by (cases "length pub = 12 \<and> length sec = 32") auto
  then show ?thesis unfolding ParseAPIKey_iff by simp
qed

text \<open>
  C34: a generated opaque token verifies under the kind it was made for and its own digest, and under no other kind and
  no other digest; it is never a well-formed API key either. A session token cannot be used as an invitation.
\<close>

theorem opaque_token_kinds_disjoint:
  assumes "GenerateOpaqueTokenFrom sha kind (Some bytes) = Inr g"
  shows "(VerifyOpaqueToken sha kind' (gt_Token g) d \<longleftrightarrow> kind' = kind \<and> d = gt_Digest g)
    \<and> ParseAPIKey (gt_Token g) = Inl ErrInvalidAPIKey"
proof -
  obtain t where t: "gt_Token g = t" "DigestOpaqueToken sha kind t = Inr (gt_Digest g)"
    using assms unfolding GenerateOpaqueTokenFrom_def Let_def by (auto split: option.splits sum.splits prod.splits)
  obtain p dn raw where p: "kind_prefix kind = Some p" "t = p @ raw_url raw" using DigestOpaqueToken_Inr [OF t(2)] by blast
  have other: "kind' = kind" if dig: "DigestOpaqueToken sha kind' t = Inr e" for e
  proof -
    obtain p' dn' raw' where "kind_prefix kind' = Some p'" "t = p' @ raw_url raw'" using DigestOpaqueToken_Inr [OF dig] by blast
    then show ?thesis using kind_prefix_inject p by metis
  qed
  have "VerifyOpaqueToken sha kind' t d \<longleftrightarrow> DigestOpaqueToken sha kind' t = Inr d"
    unfolding VerifyOpaqueToken_def by (auto split: sum.splits)
  then have v: "VerifyOpaqueToken sha kind' t d \<longleftrightarrow> kind' = kind \<and> d = gt_Digest g" using other t(2) by auto
  have "t \<noteq> key_text pub sec" for pub sec
    using p(1) by (cases rule: kind_cases) (simp_all add: p(2) key_text_def)
  then have no: "ParseAPIKey t \<noteq> Inr k" for k unfolding ParseAPIKey_iff by blast
  have inv: "ParseAPIKey t = Inl e \<Longrightarrow> e = ErrInvalidAPIKey" for e
    unfolding ParseAPIKey_def Let_def by (simp split: if_splits option.splits)
  have "ParseAPIKey t = Inl ErrInvalidAPIKey" using no inv by (cases "ParseAPIKey t") blast+
  then show ?thesis using v unfolding t(1) by blast
qed

theorem opaque_token_kinds_disjoint_witness:
  "(case GenerateOpaqueTokenFrom (\<lambda>m. m) SessionToken (Some (replicate 32 (CHR ''x''))) of
      Inl e \<Rightarrow> False
    | Inr g \<Rightarrow> VerifyOpaqueToken (\<lambda>m. m) SessionToken (gt_Token g) (gt_Digest g)
        \<and> \<not> VerifyOpaqueToken (\<lambda>m. m) InvitationToken (gt_Token g) (gt_Digest g)
        \<and> ParseAPIKey (gt_Token g) = Inl ErrInvalidAPIKey)"
proof -
  let ?r = "replicate 32 (CHR ''x'')"
  have k: "kind_prefix SessionToken = Some ''cgs_v1_''" "kind_domain SessionToken = Some ''codex-gateway/session-token/v1''"
    by (simp_all add: kind_prefix_def kind_domain_def)
  have "\<exists>g. GenerateOpaqueTokenFrom (\<lambda>m. m) SessionToken (Some r) = Inr g" if "length r = 32" for r
  proof -
    have "ReadFull 32 r = Inr (r, [])" using that by (simp add: ReadFull_Inr)
    then show ?thesis
      unfolding GenerateOpaqueTokenFrom_def Let_def k option.case using DigestOpaqueToken_text [OF k that] by simp
  qed
  from this [OF length_replicate] obtain g where g: "GenerateOpaqueTokenFrom (\<lambda>m. m) SessionToken (Some ?r) = Inr g"
    by blast
  show ?thesis unfolding g sum.case using opaque_token_kinds_disjoint [OF g] by simp
qed

text \<open>
  C33: the digest stored for a generated API key lets that key in, and letting any other text in exhibits a collision of
  the keyed hash: two different messages with the stored digest. The message is built so that distinct keys never share
  one.
\<close>

theorem stored_digest_identifies_key:
  assumes "GenerateAPIKeyFrom (Some bytes) = Inr g" and "HashAPIKey hmac pepper (gk_Token g) = Inr d"
  shows "(\<exists>k. VerifyAPIKey hmac pepper (gk_Token g) d = Inr (k, True))
    \<and> (\<forall>t k. VerifyAPIKey hmac pepper t d = Inr (k, True) \<and> t \<noteq> gk_Token g \<longrightarrow>
        (\<exists>m m'. m \<noteq> m' \<and> hmac pepper m = d \<and> hmac pepper m' = d))"
proof -
  obtain pub sec where l: "length pub = 12" "length sec = 32" and g: "gk_Token g = key_text pub sec"
    using assms(1) unfolding GenerateAPIKeyFrom_iff by auto
  have d: "d = hmac pepper (key_message pub sec)" and pep: "\<not> length pepper < 32"
    using assms(2) unfolding HashAPIKey_def g ParseAPIKey_key_text [OF l] HashParsedAPIKey_def key_message_def
    by (simp_all split: if_splits)
  have collision: "\<exists>m m'. m \<noteq> m' \<and> hmac pepper m = d \<and> hmac pepper m' = d"
    if v: "VerifyAPIKey hmac pepper t d = Inr (k, True)" and ne: "t \<noteq> gk_Token g" for t k
  proof -
    obtain key where key: "ParseAPIKey t = Inr key"
      using v pep unfolding VerifyAPIKey_def by (cases "ParseAPIKey t") auto
    then obtain pub' sec' where l': "length pub' = 12" "length sec' = 32" and t: "t = key_text pub' sec'"
      and k': "key = \<lparr>pk_PublicID = raw_url pub', pk_secret = sec', pk_valid = True\<rparr>" unfolding ParseAPIKey_iff by auto
    have "hmac pepper (key_message pub' sec') = d"
      using v pep unfolding VerifyAPIKey_def key VerifyParsedAPIKey_def HashParsedAPIKey_def k' key_message_def
      by simp
    moreover have "key_message pub' sec' \<noteq> key_message pub sec"
      using ne key_message_inject [OF l(1) l'(1)] unfolding t g by auto
    ultimately show ?thesis
      using d by (intro exI [of _ "key_message pub' sec'"] exI [of _ "key_message pub sec"]) simp
  qed
  have own: "VerifyAPIKey hmac pepper (gk_Token g) d
      = Inr (\<lparr>pk_PublicID = raw_url pub, pk_secret = sec, pk_valid = True\<rparr>, True)"
    using pep unfolding VerifyAPIKey_def g ParseAPIKey_key_text [OF l] VerifyParsedAPIKey_def HashParsedAPIKey_def d key_message_def
    by simp
  show ?thesis
  proof (intro conjI allI impI)
    show "\<exists>k. VerifyAPIKey hmac pepper (gk_Token g) d = Inr (k, True)" by (rule exI, rule own)
    show "\<exists>m m'. m \<noteq> m' \<and> hmac pepper m = d \<and> hmac pepper m' = d"
      if "VerifyAPIKey hmac pepper t d = Inr (k, True) \<and> t \<noteq> gk_Token g" for t k
      using that by (elim conjE) (rule collision)
  qed
qed

theorem stored_digest_identifies_key_witness:
  "(case GenerateAPIKeyFrom (Some (replicate 44 (CHR ''k''))) of
      Inl e \<Rightarrow> False
    | Inr g \<Rightarrow> (\<exists>d k. VerifyAPIKey (\<lambda>p m. m) (replicate 32 (CHR ''p'')) (gk_Token g) d = Inr (k, True)
        \<and> (\<forall>t k'. VerifyAPIKey (\<lambda>p m. m) (replicate 32 (CHR ''p'')) t d = Inr (k', True) \<longrightarrow> t = gk_Token g)))"
proof -
  let ?p = "replicate 12 (CHR ''k'')" and ?s = "replicate 32 (CHR ''k'')" and ?pep = "replicate 32 (CHR ''p'')"
  let ?g = "\<lparr>gk_Token = key_text ?p ?s, gk_PublicID = raw_url ?p, gk_Prefix = APIKeyVersionPrefix @ raw_url ?p @ ''_''\<rparr>"
  have split: "replicate 44 (CHR ''k'') = ?p @ ?s @ []" unfolding append_Nil2 replicate_add [symmetric] by simp
  have g: "GenerateAPIKeyFrom (Some (replicate 44 (CHR ''k''))) = Inr ?g"
    unfolding GenerateAPIKeyFrom_iff split by (intro exI [of _ ?p] exI [of _ ?s] exI [of _ "[]"] conjI refl) simp_all
  have l: "length ?p = 12" "length ?s = 32" by simp_all
  obtain d where d: "HashAPIKey (\<lambda>p m. m) ?pep (gk_Token ?g) = Inr d"
    unfolding HashAPIKey_def GeneratedAPIKey.select_convs ParseAPIKey_key_text [OF l] HashParsedAPIKey_def by simp
  note id = stored_digest_identifies_key [OF g d]
  obtain k where "VerifyAPIKey (\<lambda>p m. m) ?pep (gk_Token ?g) d = Inr (k, True)" using conjunct1 [OF id] by (elim exE)
  moreover have "\<forall>t k'. VerifyAPIKey (\<lambda>p m. m) ?pep t d = Inr (k', True) \<longrightarrow> t = gk_Token ?g"
    using conjunct2 [OF id] by metis
  ultimately show ?thesis unfolding g sum.case by (intro exI conjI)
qed



text \<open>
  C37: what is written to logs for a key is fixed by the first 24 characters of its text, the version marker and the
  public identifier: the printed forms of a parsed and of a generated key and the prefix for logs hold no character of
  the 43 that spell the secret.
\<close>

theorem log_texts_hold_no_secret:
  assumes "GenerateAPIKeyFrom random = Inr g" and "ParseAPIKey (gk_Token g) = Inr k"
  shows "generated_String g = take 24 (gk_Token g) @ RedactedValue
    \<and> parsed_String k = take 24 (gk_Token g) @ RedactedValue
    \<and> APIKeyPrefixForLog (gk_Token g) = Inr (take 24 (gk_Token g)) \<and> length (gk_Token g) = 24 + apiKeySecretEncodedLen"
proof -
  obtain bytes where "random = Some bytes" using assms(1) by (cases random) (simp_all add: GenerateAPIKeyFrom_def)
  then obtain pub sec where l: "length pub = 12" "length sec = 32"
    and g: "g = \<lparr>gk_Token = key_text pub sec, gk_PublicID = raw_url pub, gk_Prefix = APIKeyVersionPrefix @ raw_url pub @ ''_''\<rparr>"
    using assms(1) GenerateAPIKeyFrom_iff [of bytes g] by auto
  note parse = ParseAPIKey_key_text [OF l]
  have k: "k = \<lparr>pk_PublicID = raw_url pub, pk_secret = sec, pk_valid = True\<rparr>" using assms(2) parse unfolding g by simp
  have t: "take 24 (key_text pub sec) = APIKeyVersionPrefix @ raw_url pub @ ''_''" "length (key_text pub sec) = 67"
    using l by (simp_all add: key_text_def format_lengths)
  show ?thesis
    unfolding g k generated_String_def parsed_String_def APIKeyPrefixForLog_def GeneratedAPIKey.select_convs parse sum.case
      Prefix_def t by simp
qed

theorem log_texts_hold_no_secret_witness:
  "(case GenerateAPIKeyFrom (Some (replicate 44 (CHR ''k''))) of
      Inl e \<Rightarrow> False
    | Inr g \<Rightarrow> generated_String g = take 24 (gk_Token g) @ RedactedValue
        \<and> APIKeyPrefixForLog (gk_Token g) = Inr (take 24 (gk_Token g)))"
proof -
  let ?p = "replicate 12 (CHR ''k'')" and ?s = "replicate 32 (CHR ''k'')"
  let ?g = "\<lparr>gk_Token = key_text ?p ?s, gk_PublicID = raw_url ?p, gk_Prefix = APIKeyVersionPrefix @ raw_url ?p @ ''_''\<rparr>"
  have split: "replicate 44 (CHR ''k'') = ?p @ ?s @ []" unfolding append_Nil2 replicate_add [symmetric] by simp
  have g: "GenerateAPIKeyFrom (Some (replicate 44 (CHR ''k''))) = Inr ?g"
    unfolding GenerateAPIKeyFrom_iff split by (intro exI [of _ ?p] exI [of _ ?s] exI [of _ "[]"] conjI refl) simp_all
  have "ParseAPIKey (gk_Token ?g) = Inr \<lparr>pk_PublicID = raw_url ?p, pk_secret = ?s, pk_valid = True\<rparr>"
    unfolding GeneratedAPIKey.select_convs by (rule ParseAPIKey_key_text) simp_all
  from log_texts_hold_no_secret [OF g this] show ?thesis unfolding g sum.case by (elim conjE) (intro conjI)
qed

text \<open>
  C36: the loop that makes recovery codes ends on every source of entropy. With ten different blocks of 15 bytes to read
  it returns ten different codes, each of which verifies against the digest returned with it; with fewer bytes or a
  repeated block it returns an error and no codes.
\<close>

theorem recovery_codes_loop_ends:
  "(case GenerateRecoveryCodesFrom sha (Some bytes) of
      Inl e \<Rightarrow> \<not> (150 \<le> length bytes \<and> distinct (chunk RecoveryCodeBytes (take 150 bytes)))
    | Inr codes \<Rightarrow> 150 \<le> length bytes \<and> distinct (chunk RecoveryCodeBytes (take 150 bytes))
        \<and> length codes = RecoveryCodeCount \<and> distinct (map fst codes)
        \<and> list_all (\<lambda>(code, digest). VerifyRecoveryCode sha code digest) codes)"
proof -
  let ?bs = "chunk 15 (take 150 bytes)"
  have none: "length [] + 10 = (10 :: nat)" "distinct (map fst [])" by simp_all
  have gen: "GenerateRecoveryCodesFrom sha (Some bytes) = recovery_loop sha bytes []" by (simp add: GenerateRecoveryCodesFrom_def)
  have bs: "length ?bs = 10" "\<And>b. b \<in> set ?bs \<Longrightarrow> length b = 15" if "150 \<le> length bytes"
  proof -
    have "length (take 150 bytes) = 15 * 10" using that by simp
    from chunk_lengths [OF this] show "length ?bs = 10" "\<And>b. b \<in> set ?bs \<Longrightarrow> length b = 15" by simp_all
  qed
  have ok: "(\<exists>c. recovery_loop sha bytes [] = Inr c) \<longleftrightarrow> 150 \<le> length bytes \<and> distinct ?bs"
  proof -
    have "(\<exists>c. recovery_loop sha bytes [] = Inr c) \<longleftrightarrow> 150 \<le> length bytes \<and> distinct (map recovery_code ?bs)"
      using recovery_loop_result(2) [OF none, of sha bytes] by simp
    moreover have "distinct (map recovery_code ?bs) \<longleftrightarrow> distinct ?bs" if "150 \<le> length bytes"
      by (rule distinct_recovery_codes) (rule bs(2) [OF that])
    ultimately show ?thesis by argo
  qed
  show ?thesis
  proof (cases "recovery_loop sha bytes []")
    case (Inl e)
    then show ?thesis unfolding gen using ok by simp
  next
    case (Inr codes)
    then have long: "150 \<le> length bytes" "distinct ?bs" using ok by blast+
    have codes: "codes = map (recovery_pair sha) ?bs" using recovery_loop_result(1) [OF none Inr] by simp
    have "distinct (map fst codes)" using distinct_recovery_codes [OF bs(2) [OF long(1)]] long(2) by (simp add: codes comp_def)
    moreover have "list_all (\<lambda>(code, digest). VerifyRecoveryCode sha code digest) codes"
      unfolding codes list_all_iff using recovery_pair_verifies [of _ sha] bs(2) [OF long(1)]
      by (auto simp: recovery_pair_def)
    ultimately show ?thesis unfolding gen Inr sum.case using long bs(1) by (simp add: codes)
  qed
qed

end
