(* ===== verification/Cash_Ledger.thy ===== *)
theory Cash_Ledger
  imports Amount Audit_Log
begin

text \<open>
  Cash accounts of \<^verbatim>\<open>internal/store/billing.go\<close>: recharges, balance adjustments, the recharge rate and the switches of
  the funding sources. A balance is backed by credit lots, every change has a ledger entry, and an operation identifier
  is applied once. Columns of type \<^verbatim>\<open>NUMERIC(30,12)\<close> are integers that count units of the last place; the Go code sees
  their texts. Identifiers stand for the UUIDs they denote and texts are valid UTF-8. An identity column takes a number
  above all present ones (the database may skip more). The digest of a request is the parameter \<open>sha\<close>.
\<close>

section \<open>Tables\<close>

record billing_account =
  ca_user :: string
  ca_balance :: int
  ca_next_sequence :: int
  ca_updated_at :: timestamp
  ca_disabled :: "string list"

record billing_operation =
  bo_id :: string
  bo_type :: string
  bo_actor :: string
  bo_target :: string
  bo_reason :: string
  bo_fingerprint :: string
  bo_result :: "int option"
  bo_created_at :: timestamp

text \<open>The columns of a ledger entry that cash operations write; the others stay at their defaults in these entries.\<close>

record BillingLedgerEntry =
  bl_id :: int
  bl_user :: string
  bl_operation :: string
  bl_type :: string
  bl_amount :: int
  bl_cash_delta :: int
  bl_balance_after :: "int option"
  bl_cny :: "int option"
  bl_rate :: "int option"
  bl_reason :: string
  bl_actor :: string
  bl_created_at :: timestamp

record cash_lot =
  lt_id :: int
  lt_user :: string
  lt_sequence :: int
  lt_source :: int
  lt_original :: int
  lt_remaining :: int
  lt_created_at :: timestamp

record billing_settings =
  bs_rate :: int
  bs_updated_at :: timestamp
  bs_updated_by :: "string option"

text \<open>
  The disabled sources of an account are the names whose column is true. \<open>cash_users\<close> are the identifiers and states of
  the users.
\<close>

record cash_db =
  cash_users :: "(string \<times> string) list"
  cash_accounts :: "billing_account list"
  cash_settings :: billing_settings
  cash_operations :: "billing_operation list"
  cash_ledger :: "BillingLedgerEntry list"
  cash_lots :: "cash_lot list"
  cash_tombstones :: "string list"
  cash_events :: "audit_event list"

abbreviation known_user :: "cash_db \<Rightarrow> string \<Rightarrow> bool" where
  "known_user db u \<equiv> u \<in> fst ` set (cash_users db)"

text \<open>The check constraints of the tables.\<close>

definition numeric_range :: "int \<Rightarrow> bool" where
  "numeric_range v = (\<bar>v\<bar> < 10 ^ 30)"

definition account_check :: "billing_account \<Rightarrow> bool" where
  "account_check a = (0 \<le> ca_balance a \<and> numeric_range (ca_balance a) \<and> 0 < ca_next_sequence a
      \<and> ca_next_sequence a < 2 ^ 63)"

definition operation_check :: "billing_operation \<Rightarrow> bool" where
  "operation_check r =
     (1 \<le> char_length (bo_reason r) \<and> char_length (bo_reason r) \<le> 500 \<and> length (bo_fingerprint r) = 32
      \<and> (bo_type r = ''recharge_rate'' \<longleftrightarrow> bo_target r = []))"

definition opt_all :: "('a \<Rightarrow> bool) \<Rightarrow> 'a option \<Rightarrow> bool" where
  "opt_all p x = (case x of None \<Rightarrow> True | Some v \<Rightarrow> p v)"

definition ledger_check :: "BillingLedgerEntry \<Rightarrow> bool" where
  "ledger_check e =
     (numeric_range (bl_amount e) \<and> numeric_range (bl_cash_delta e)
      \<and> opt_all (\<lambda>b. 0 \<le> b \<and> numeric_range b) (bl_balance_after e)
      \<and> opt_all (\<lambda>c. 0 \<le> c \<and> numeric_range c) (bl_cny e) \<and> opt_all (\<lambda>r. 0 < r \<and> numeric_range r) (bl_rate e))"

definition lot_check :: "cash_lot \<Rightarrow> bool" where
  "lot_check t =
     (0 < lt_sequence t \<and> 0 < lt_original t \<and> 0 \<le> lt_remaining t \<and> lt_remaining t \<le> lt_original t
      \<and> numeric_range (lt_original t))"

section \<open>Numbers\<close>

text \<open>\<^verbatim>\<open>column::text\<close> and \<^verbatim>\<open>text::numeric\<close>\<close>

definition numeric_text :: "int \<Rightarrow> string" where
  "numeric_text v = FloatString (of_int v / 10 ^ 12) 12"

definition numeric_in :: "string \<Rightarrow> store_error + int" where
  "numeric_in t =
     (case rat_SetString t of None \<Rightarrow> Inl ErrInvalid
      | Some r \<Rightarrow> if numeric_range (round_units 12 r) then Inr (round_units 12 r) else Inl ErrInvalid)"

definition stored_amount :: "store_amount_error + 'a \<Rightarrow> store_error + 'a" where
  "stored_amount m = (case m of Inl e \<Rightarrow> Inl ErrAmount | Inr x \<Rightarrow> Inr x)"

definition decimal_or :: "store_error \<Rightarrow> decimal_error + 'a \<Rightarrow> store_error + 'a" where
  "decimal_or e m = (case m of Inl d \<Rightarrow> Inl e | Inr x \<Rightarrow> Inr x)"

definition fresh_id :: "int list \<Rightarrow> int" where
  "fresh_id ids = foldr max ids 0 + 1"

section \<open>Shared steps\<close>

record BillingWriteParams =
  bw_OperationID :: string
  bw_Reason :: string
  bw_ActorUserID :: string
  bw_ActorSessionID :: string
  bw_RequestID :: string
  bw_SourceIP :: string
  bw_At :: timestamp

definition normalizedBillingTime :: "timestamp \<Rightarrow> timestamp \<Rightarrow> timestamp" where
  "normalizedBillingTime value now = (if value = 0 then now else value)"

definition validateBillingWrite :: "BillingWriteParams \<Rightarrow> store_error + unit" where
  "validateBillingWrite p =
     (if bw_OperationID p = [] \<or> bw_ActorUserID p = [] \<or> trim_space (bw_Reason p) = []
         \<or> char_length (trim_space (bw_Reason p)) > 500
      then Inl ErrInvalid else Inr ())"

definition normalized_params :: "BillingWriteParams \<Rightarrow> timestamp \<Rightarrow> BillingWriteParams" where
  "normalized_params p now = p\<lparr>bw_At := normalizedBillingTime (bw_At p) now, bw_Reason := trim_space (bw_Reason p)\<rparr>"

definition billingOperationFingerprint :: "(string \<Rightarrow> string) \<Rightarrow> string list \<Rightarrow> string" where
  "billingOperationFingerprint sha values =
     sha (case json_Marshal (MList (map MString values)) of None \<Rightarrow> [] | Some body \<Rightarrow> body)"

definition new_operation :: "BillingWriteParams \<Rightarrow> string \<Rightarrow> string \<Rightarrow> string \<Rightarrow> billing_operation" where
  "new_operation p kind target fingerprint =
     \<lparr>bo_id = bw_OperationID p, bo_type = kind, bo_actor = bw_ActorUserID p, bo_target = target,
      bo_reason = trim_space (bw_Reason p), bo_fingerprint = fingerprint, bo_result = None, bo_created_at = bw_At p\<rparr>"

text \<open>
  The result is \<open>None\<close> when the operation was created by this call and the identifier of its ledger entry when it is a
  replay.
\<close>

definition claimBillingOperationTx ::
  "cash_db \<Rightarrow> BillingWriteParams \<Rightarrow> string \<Rightarrow> string \<Rightarrow> string \<Rightarrow> string list \<Rightarrow> store_error + (int option \<times> cash_db)" where
  "claimBillingOperationTx db p kind target fingerprint compatible =
     (if bw_OperationID p \<in> set (cash_tombstones db) then Inl ErrBillingOperationCleaned
      else
        let r = new_operation p kind target fingerprint in
        if \<not> operation_check r then Inl ErrInvalid
        else
          case row_lookup bo_id (bw_OperationID p) (cash_operations db) of
            None \<Rightarrow>
              if known_user db (bw_ActorUserID p) \<and> (target = [] \<or> known_user db target)
              then Inr (None, db\<lparr>cash_operations := cash_operations db @ [r]\<rparr>) else Inl ErrInvalid
          | Some stored \<Rightarrow>
              if bo_type stored \<noteq> kind \<or> bo_actor stored \<noteq> bw_ActorUserID p \<or> bo_target stored \<noteq> target
                 \<or> bo_fingerprint stored \<notin> set (fingerprint # compatible) \<or> bo_result stored = None
              then Inl ErrConflict else Inr (bo_result stored, db))"

definition finishBillingOperationTx :: "cash_db \<Rightarrow> string \<Rightarrow> int \<Rightarrow> store_error + cash_db" where
  "finishBillingOperationTx db operationID ledgerID =
     (if \<not> list_ex (\<lambda>r. bo_id r = operationID \<and> bo_result r = None) (cash_operations db) then Inl ErrNotFound
      else if \<not> list_ex (\<lambda>e. bl_id e = ledgerID \<and> bl_operation e = operationID) (cash_ledger db) then Inl ErrInvalid
      else Inr (db\<lparr>cash_operations := map (\<lambda>r. if bo_id r = operationID \<and> bo_result r = None
                                             then r\<lparr>bo_result := Some ledgerID\<rparr> else r) (cash_operations db)\<rparr>))"

definition replayBillingLedgerTx :: "cash_db \<Rightarrow> int \<Rightarrow> store_error + BillingLedgerEntry" where
  "replayBillingLedgerTx db i = (case row_lookup bl_id i (cash_ledger db) of None \<Rightarrow> Inl ErrNotFound | Some e \<Rightarrow> Inr e)"

definition lockNonPendingUserTx :: "cash_db \<Rightarrow> string \<Rightarrow> store_error + unit" where
  "lockNonPendingUserTx db user =
     (case map_of (cash_users db) user of
        None \<Rightarrow> Inl ErrNotFound
      | Some status \<Rightarrow> if status = ''pending'' then Inl ErrConflict else Inr ())"

definition lockBillingAccountTx :: "cash_db \<Rightarrow> string \<Rightarrow> store_error + billing_account" where
  "lockBillingAccountTx db user =
     (case row_lookup ca_user user (cash_accounts db) of
        None \<Rightarrow> Inl ErrNotFound
      | Some a \<Rightarrow> andThen (lockNonPendingUserTx db user) (\<lambda>_. Inr a))"

definition appendBillingAuditTx ::
  "audit_refs \<Rightarrow> cash_db \<Rightarrow> BillingWriteParams \<Rightarrow> string \<Rightarrow> string \<Rightarrow> string \<Rightarrow> (string \<times> metadata) list \<Rightarrow> store_error + cash_db" where
  "appendBillingAuditTx refs db p eventType subjectType subject md =
     andThen (marshalSafeMetadata (Some md))
       (\<lambda>data. andThen
          (insert_audit_event refs
             \<lparr>OccurredAt = bw_At p, ActorUserID = bw_ActorUserID p, ActorSessionID = bw_ActorSessionID p,
              EventType = eventType, Severity = ''info'', SourceIP = bw_SourceIP p, SubjectType = subjectType,
              SubjectID = subject, RequestID = bw_RequestID p, Metadata = data\<rparr> (cash_events db))
          (\<lambda>es. Inr (db\<lparr>cash_events := es\<rparr>)))"

definition update_account ::
  "cash_db \<Rightarrow> string \<Rightarrow> (billing_account \<Rightarrow> billing_account) \<Rightarrow> store_error + cash_db" where
  "update_account db user f =
     andThen (sql_update account_check (\<lambda>a. ca_user a = user) f (cash_accounts db))
       (\<lambda>(rows, n). Inr (db\<lparr>cash_accounts := rows\<rparr>))"

text \<open>The insertions, with the foreign keys and the unique columns of the tables.\<close>

definition insert_ledger :: "cash_db \<Rightarrow> BillingLedgerEntry \<Rightarrow> store_error + (BillingLedgerEntry \<times> cash_db)" where
  "insert_ledger db e0 =
     (let e = e0\<lparr>bl_id := fresh_id (map bl_id (cash_ledger db))\<rparr> in
      if \<not> ledger_check e then Inl ErrInvalid
      else if bl_operation e \<in> bl_operation ` set (cash_ledger db) then Inl ErrConflict
      else if \<not> (known_user db (bl_user e) \<and> known_user db (bl_actor e)
                 \<and> bl_operation e \<in> bo_id ` set (cash_operations db)) then Inl ErrInvalid
      else Inr (e, db\<lparr>cash_ledger := cash_ledger db @ [e]\<rparr>))"

definition insert_lot :: "cash_db \<Rightarrow> string \<Rightarrow> int \<Rightarrow> int \<Rightarrow> int \<Rightarrow> timestamp \<Rightarrow> store_error + cash_db" where
  "insert_lot db user sequence source amount stamp =
     (let t = \<lparr>lt_id = fresh_id (map lt_id (cash_lots db)), lt_user = user, lt_sequence = sequence, lt_source = source,
               lt_original = amount, lt_remaining = amount, lt_created_at = stamp\<rparr> in
      if \<not> lot_check t then Inl ErrInvalid
      else if source \<in> lt_source ` set (cash_lots db)
         \<or> (user, sequence) \<in> (\<lambda>t. (lt_user t, lt_sequence t)) ` set (cash_lots db) then Inl ErrConflict
      else if \<not> list_ex (\<lambda>e. bl_id e = source \<and> bl_user e = user) (cash_ledger db) then Inl ErrInvalid
      else Inr (db\<lparr>cash_lots := cash_lots db @ [t]\<rparr>))"

definition ledger_row ::
  "BillingWriteParams \<Rightarrow> string \<Rightarrow> string \<Rightarrow> int \<Rightarrow> int option \<Rightarrow> int option \<Rightarrow> int option \<Rightarrow> BillingLedgerEntry" where
  "ledger_row p user kind amount balance cny rate =
     \<lparr>bl_id = 0, bl_user = user, bl_operation = bw_OperationID p, bl_type = kind, bl_amount = amount, bl_cash_delta = amount,
      bl_balance_after = balance, bl_cny = cny, bl_rate = rate, bl_reason = bw_Reason p, bl_actor = bw_ActorUserID p,
      bl_created_at = bw_At p\<rparr>"

section \<open>Operations\<close>

definition credit_recharge ::
  "audit_refs \<Rightarrow> BillingWriteParams \<Rightarrow> string \<Rightarrow> string \<Rightarrow> billing_account \<Rightarrow> cash_db \<Rightarrow> store_error + (BillingLedgerEntry \<times> cash_db)" where
  "credit_recharge refs p user cny account db =
     (let rate = numeric_text (bs_rate (cash_settings db)) in
      andThen (decimal_or ErrAmount (MultiplyToAmount cny rate)) (\<lambda>usd.
      andThen (guard (billingPositive usd) ErrInvalid) (\<lambda>_.
      andThen (numeric_in usd) (\<lambda>u. andThen (numeric_in cny) (\<lambda>c.
      andThen (update_account db user (\<lambda>a. a\<lparr>ca_balance := ca_balance a + u,
                 ca_next_sequence := ca_next_sequence a + 1, ca_updated_at := bw_At p\<rparr>)) (\<lambda>db1.
      andThen (insert_ledger db1 (ledger_row p user ''recharge'' u (Some (ca_balance account + u)) (Some c)
                 (Some (bs_rate (cash_settings db))))) (\<lambda>(entry, db2).
      andThen (insert_lot db2 user (ca_next_sequence account) (bl_id entry) u (bw_At p)) (\<lambda>db3.
      andThen (finishBillingOperationTx db3 (bw_OperationID p) (bl_id entry)) (\<lambda>db4.
      andThen (appendBillingAuditTx refs db4 p ''billing.recharged'' ''user'' user
                 [(''operation_id'', MString (bw_OperationID p)), (''cny_amount'', MString cny),
                  (''usd_amount'', MString usd), (''usd_per_cny'', MString rate)]) (\<lambda>db5.
      Inr (entry, db5)))))))))))"

definition RechargeUser ::
  "audit_refs \<Rightarrow> (string \<Rightarrow> string) \<Rightarrow> cash_db \<Rightarrow> BillingWriteParams \<Rightarrow> string \<Rightarrow> string \<Rightarrow> timestamp
   \<Rightarrow> (store_error + BillingLedgerEntry) \<times> cash_db" where
  "RechargeUser refs sha db p0 user amount now =
     (case validateBillingWrite p0 of
        Inl e \<Rightarrow> (Inl e, db)
      | Inr _ \<Rightarrow>
          if user = [] then (Inl ErrInvalid, db)
          else
            (case ParseInput amount False False of
               Inl e \<Rightarrow> (Inl ErrInvalid, db)
             | Inr cny \<Rightarrow>
                 let p = normalized_params p0 now;
                     fingerprint = billingOperationFingerprint sha [''recharge'', bw_ActorUserID p, user, bw_Reason p, cny] in
                 withTx (\<lambda>db.
                   andThen (lockBillingAccountTx db user) (\<lambda>account.
                   andThen (claimBillingOperationTx db p ''recharge'' user fingerprint []) (\<lambda>(replay, db1).
                   case replay of
                     Some i \<Rightarrow> andThen (replayBillingLedgerTx db1 i) (\<lambda>entry. Inr (entry, db1))
                   | None \<Rightarrow> credit_recharge refs p user cny account db1))) db))"

text \<open>The lots with money left, oldest first, as identifiers and texts; and the loop that debits them.\<close>

definition adjustment_lots :: "cash_db \<Rightarrow> string \<Rightarrow> (int \<times> string) list" where
  "adjustment_lots db user =
     map (\<lambda>t. (lt_id t, numeric_text (lt_remaining t)))
       (sort_key lt_sequence (filter (\<lambda>t. lt_user t = user \<and> lt_remaining t > 0) (cash_lots db)))"

fun debit_lots :: "(int \<times> string) list \<Rightarrow> string \<Rightarrow> cash_lot list \<Rightarrow> store_error + (string \<times> cash_lot list)" where
  "debit_lots [] needed rows = Inr (needed, rows)"
| "debit_lots ((i, remaining) # lots) needed rows =
     (if \<not> billingPositive needed then Inr (needed, rows)
      else
        andThen (stored_amount (billingMin remaining needed)) (\<lambda>deduction.
        andThen (numeric_in deduction) (\<lambda>d.
        andThen (sql_update lot_check (\<lambda>t. lt_id t = i) (\<lambda>t. t\<lparr>lt_remaining := lt_remaining t - d\<rparr>) rows) (\<lambda>(rows1, n).
        andThen (stored_amount (billingSubtract needed deduction)) (\<lambda>needed1.
        debit_lots lots needed1 rows1)))))"

definition debit_adjustment :: "string \<Rightarrow> string \<Rightarrow> cash_db \<Rightarrow> store_error + cash_db" where
  "debit_adjustment user amount db =
     andThen (stored_amount (billingSubtract ''0'' amount)) (\<lambda>needed0.
     andThen (debit_lots (adjustment_lots db user) needed0 (cash_lots db)) (\<lambda>(needed, rows).
     if billingPositive needed then Inl ErrConflict else Inr (db\<lparr>cash_lots := rows\<rparr>)))"

definition apply_adjustment ::
  "audit_refs \<Rightarrow> BillingWriteParams \<Rightarrow> string \<Rightarrow> string \<Rightarrow> billing_account \<Rightarrow> cash_db \<Rightarrow> store_error + (BillingLedgerEntry \<times> cash_db)" where
  "apply_adjustment refs p user amount account db =
     andThen (stored_amount (billingAdd (numeric_text (ca_balance account)) amount)) (\<lambda>newBalance.
     andThen (stored_amount (billingRat newBalance)) (\<lambda>newValue.
     andThen (guard (\<not> newValue < 0) ErrInsufficientFunds) (\<lambda>_.
     let positive = billingPositive amount; sequence = ca_next_sequence account;
         nextSequence = (if positive then sequence + 1 else sequence) in
     andThen (if \<not> positive then debit_adjustment user amount db else Inr db) (\<lambda>db1.
     andThen (numeric_in newBalance) (\<lambda>b. andThen (numeric_in amount) (\<lambda>u.
     andThen (update_account db1 user (\<lambda>a. a\<lparr>ca_balance := b, ca_next_sequence := nextSequence, ca_updated_at := bw_At p\<rparr>)) (\<lambda>db2.
     andThen (insert_ledger db2 (ledger_row p user ''adjustment'' u (Some b) None None)) (\<lambda>(entry, db3).
     andThen (if positive then insert_lot db3 user sequence (bl_id entry) u (bw_At p) else Inr db3) (\<lambda>db4.
     andThen (finishBillingOperationTx db4 (bw_OperationID p) (bl_id entry)) (\<lambda>db5.
     andThen (appendBillingAuditTx refs db5 p ''billing.adjusted'' ''user'' user
                [(''operation_id'', MString (bw_OperationID p)), (''usd_amount'', MString amount)]) (\<lambda>db6.
     Inr (entry, db6))))))))))))"

definition AdjustUserBalance ::
  "audit_refs \<Rightarrow> (string \<Rightarrow> string) \<Rightarrow> cash_db \<Rightarrow> BillingWriteParams \<Rightarrow> string \<Rightarrow> string \<Rightarrow> timestamp
   \<Rightarrow> (store_error + BillingLedgerEntry) \<times> cash_db" where
  "AdjustUserBalance refs sha db p0 user given now =
     (case validateBillingWrite p0 of
        Inl e \<Rightarrow> (Inl e, db)
      | Inr _ \<Rightarrow>
          if user = [] then (Inl ErrInvalid, db)
          else
            (case ParseInput given True False of
               Inl e \<Rightarrow> (Inl ErrInvalid, db)
             | Inr amount \<Rightarrow>
                 let p = normalized_params p0 now;
                     fingerprint = billingOperationFingerprint sha [''adjustment'', bw_ActorUserID p, user, bw_Reason p, amount] in
                 withTx (\<lambda>db.
                   andThen (lockBillingAccountTx db user) (\<lambda>account.
                   andThen (claimBillingOperationTx db p ''adjustment'' user fingerprint []) (\<lambda>(replay, db1).
                   case replay of
                     Some i \<Rightarrow> andThen (replayBillingLedgerTx db1 i) (\<lambda>entry. Inr (entry, db1))
                   | None \<Rightarrow> apply_adjustment refs p user amount account db1))) db))"

definition set_rate ::
  "audit_refs \<Rightarrow> BillingWriteParams \<Rightarrow> string \<Rightarrow> cash_db \<Rightarrow> store_error + (billing_settings \<times> cash_db)" where
  "set_rate refs p rate db =
     andThen (numeric_in rate) (\<lambda>r.
     andThen (guard (0 < r \<and> known_user db (bw_ActorUserID p)) ErrInvalid) (\<lambda>_.
     let setting = \<lparr>bs_rate = r, bs_updated_at = bw_At p, bs_updated_by = Some (bw_ActorUserID p)\<rparr> in
     andThen (insert_ledger (db\<lparr>cash_settings := setting\<rparr>)
                (ledger_row p (bw_ActorUserID p) ''recharge_rate'' 0 None None (Some r))) (\<lambda>(entry, db1).
     andThen (finishBillingOperationTx db1 (bw_OperationID p) (bl_id entry)) (\<lambda>db2.
     andThen (appendBillingAuditTx refs db2 p ''billing.rate_updated'' ''billing_settings'' ''global''
                [(''operation_id'', MString (bw_OperationID p)), (''usd_per_cny'', MString rate)]) (\<lambda>db3.
     Inr (setting, db3))))))"

definition SetRechargeRate ::
  "audit_refs \<Rightarrow> (string \<Rightarrow> string) \<Rightarrow> cash_db \<Rightarrow> BillingWriteParams \<Rightarrow> string \<Rightarrow> timestamp
   \<Rightarrow> (store_error + billing_settings) \<times> cash_db" where
  "SetRechargeRate refs sha db p0 given now =
     (case validateBillingWrite p0 of
        Inl e \<Rightarrow> (Inl e, db)
      | Inr _ \<Rightarrow>
          (case ParseRate given of
             Inl e \<Rightarrow> (Inl ErrInvalid, db)
           | Inr rate \<Rightarrow>
               let p = normalized_params p0 now;
                   fingerprint = billingOperationFingerprint sha [''recharge_rate'', bw_ActorUserID p, bw_Reason p, rate] in
               withTx (\<lambda>db.
                 andThen (claimBillingOperationTx db p ''recharge_rate'' [] fingerprint []) (\<lambda>(replay, db1).
                 case replay of
                   Some i \<Rightarrow>
                     andThen (replayBillingLedgerTx db1 i) (\<lambda>entry.
                     case bl_rate entry of
                       None \<Rightarrow> Inl ErrConflict
                     | Some r \<Rightarrow> Inr (\<lparr>bs_rate = r, bs_updated_at = bl_created_at entry, bs_updated_by = Some (bl_actor entry)\<rparr>, db1))
                 | None \<Rightarrow> set_rate refs p rate db1)) db))"

definition SetBillingSourceDisabled ::
  "audit_refs \<Rightarrow> cash_db \<Rightarrow> string \<Rightarrow> string \<Rightarrow> bool \<Rightarrow> BillingWriteParams \<Rightarrow> timestamp \<Rightarrow> (store_error + unit) \<times> cash_db" where
  "SetBillingSourceDisabled refs db user source disabled p0 now =
     (if trim_space user = [] then (Inl ErrInvalid, db)
      else if source \<notin> {''day'', ''week'', ''month'', ''cash''} then (Inl ErrInvalid, db)
      else
        let p = p0\<lparr>bw_At := normalizedBillingTime (bw_At p0) now, bw_ActorUserID := user\<rparr> in
        withTx (\<lambda>db.
          andThen (lockBillingAccountTx db user) (\<lambda>account.
          andThen (update_account db user (\<lambda>a. a\<lparr>ca_disabled := (if disabled then List.insert source (ca_disabled a)
                     else removeAll source (ca_disabled a)), ca_updated_at := bw_At p\<rparr>)) (\<lambda>db1.
          andThen (appendBillingAuditTx refs db1 p ''billing.source_status_changed'' ''billing_account'' user
                     [(''source'', MString source), (''disabled'', MBool disabled),
                      (''previous_disabled'', MBool (source \<in> set (ca_disabled account)))]) (\<lambda>db2.
          Inr ((), db2))))) db)"

end
