(* ===== verification/Cash_Accounting.thy ===== *)
theory Cash_Accounting
  imports Cash_Ledger
begin

text \<open>
  The accounting behind the cash operations: texts of amounts as exact integers, the debit of the credit lots, and what
  each operation does to the tables.
\<close>

section \<open>Texts of amounts\<close>

definition text_of :: "string \<Rightarrow> int \<Rightarrow> bool" where
  "text_of t v = (rat_SetString t = Some (of_int v / 10 ^ 12))"

lemma round_units_exact: "round_units 12 (of_int v / 10 ^ 12) = v"
proof -
  have "round_half_away 12 (of_int v / 10 ^ 12) = of_int v / 10 ^ 12" by (rule round_half_away_exact [where k = v]) simp
  then show ?thesis by (simp add: round_half_away_def)
qed

lemma FloatString_text: "x * 10 ^ 12 = of_int v \<Longrightarrow> text_of (FloatString x 12) v"
  using FloatString_value [of 12 x] round_half_away_exact [of x 12 v] by (simp add: text_of_def field_simps)

lemma numeric_text_of [simp]: "text_of (numeric_text v) v"
  unfolding numeric_text_def by (rule FloatString_text) simp

lemma numeric_in_of: "text_of t v \<Longrightarrow> numeric_in t = (if numeric_range v then Inr v else Inl ErrInvalid)"
  unfolding text_of_def numeric_in_def by (simp only: option.case round_units_exact)

lemma billingPositive_of: "text_of t v \<Longrightarrow> billingPositive t \<longleftrightarrow> 0 < v"
  unfolding text_of_def billingPositive_def by (simp add: zero_less_divide_iff)

lemma billingRat_of: "text_of t v \<Longrightarrow> billingRat t = Inr (of_int v / 10 ^ 12)"
  unfolding text_of_def billingRat_def by simp

lemma billingAdd_of: "text_of x i \<Longrightarrow> text_of y j \<Longrightarrow> \<exists>s. billingAdd x y = Inr s \<and> text_of s (i + j)"
  unfolding billingAdd_def by (simp add: billingRat_of FloatString_text add_divide_distrib [symmetric])

lemma billingSubtract_of: "text_of x i \<Longrightarrow> text_of y j \<Longrightarrow> \<exists>s. billingSubtract x y = Inr s \<and> text_of s (i - j)"
  unfolding billingSubtract_def by (simp add: billingRat_of FloatString_text diff_divide_distrib [symmetric])

lemma billingMin_of: "text_of x i \<Longrightarrow> text_of y j \<Longrightarrow> \<exists>s. billingMin x y = Inr s \<and> text_of s (min i j)"
  unfolding billingMin_def by (auto simp: billingRat_of FloatString_text min_def divide_less_cancel)

lemma text_of_zero: "text_of ''0'' 0"
  unfolding text_of_def by code_simp

lemma text_of_unique: "text_of t v \<Longrightarrow> text_of t w \<Longrightarrow> v = w"
  by (simp add: text_of_def)

lemma dec_rat_units: "length f \<le> 12 \<Longrightarrow> \<exists>v. dec_rat i f = of_int v / 10 ^ 12"
proof -
  assume "length f \<le> 12"
  then obtain k where k: "12 = length f + k" using le_Suc_ex by blast
  have "dec_rat i f = of_int (int (digits_val (i @ f)) * 10 ^ k) / 10 ^ 12"
    unfolding dec_rat_def k power_add by simp
  then show ?thesis by blast
qed

lemma parseBounded_text:
  assumes p: "parseBounded x scale signed allowZero = Inr c" and "scale \<le> 12"
  shows "\<exists>v. text_of c v \<and> numeric_range v \<and> (signed \<or> 0 \<le> v) \<and> (allowZero \<or> v \<noteq> 0)"
proof -
  obtain sign i f where e: "sign \<in> sign_strings" "canonical_nat i" "all_digits f" "length f \<le> scale" "c = parsed_form sign i f"
    by (rule parseBounded_elim [OF p])
  have val: "rat_SetString c = Some (if sign = ''-'' then - dec_rat i f else dec_rat i f)"
    unfolding e(5) by (rule parsed_form_value(1) [OF e(1-3)])
  obtain w where w: "dec_rat i f = of_int w / 10 ^ 12" using dec_rat_units [of f i] e(4) assms(2) by auto
  define v where "v = (if sign = ''-'' then - w else w)"
  have t: "text_of c v" unfolding text_of_def val v_def w by simp
  have a: "amt x = of_int v / 10 ^ 12"
    using parseBounded_value(1,2) [OF p] t by (simp add: text_of_def)
  have "\<bar>of_int v / 10 ^ 12 :: rat\<bar> < 10 ^ 18" using parseBounded_value(3) [OF p] unfolding a .
  then have "\<bar>of_int v :: rat\<bar> < 10 ^ 30" by (simp add: abs_divide field_simps)
  then have r: "numeric_range v" unfolding numeric_range_def by (simp flip: of_int_abs)
  have "signed \<or> 0 \<le> v" using parseBounded_value(4) [OF p] unfolding a by (auto simp: zero_le_divide_iff)
  moreover have "allowZero \<or> v \<noteq> 0" using parseBounded_value(5) [OF p] unfolding a by auto
  ultimately show ?thesis using t r by blast
qed

section \<open>Debiting lots\<close>

definition take_from :: "(int \<Rightarrow> int) \<Rightarrow> cash_lot \<Rightarrow> cash_lot" where
  "take_from d t = t\<lparr>lt_remaining := lt_remaining t - d (lt_id t)\<rparr>"

lemma take_from_simps [simp]:
  "lt_id (take_from d t) = lt_id t" "lt_user (take_from d t) = lt_user t" "lt_sequence (take_from d t) = lt_sequence t"
  "lt_source (take_from d t) = lt_source t" "lt_original (take_from d t) = lt_original t"
  "lt_remaining (take_from d t) = lt_remaining t - d (lt_id t)"
  by (simp_all add: take_from_def)

text \<open>
  \<open>debited d ts n n'\<close>: taking \<open>d\<close> from the lots \<open>ts\<close>, in that order, brings the needed amount from \<open>n\<close> to \<open>n'\<close>. A lot
  is touched only after the ones before it are used up, and something stays needed only when all are.
\<close>

definition debited :: "(int \<Rightarrow> int) \<Rightarrow> cash_lot list \<Rightarrow> int \<Rightarrow> int \<Rightarrow> bool" where
  "debited d ts n n' =
     ((\<forall>t \<in> set ts. 0 \<le> d (lt_id t) \<and> d (lt_id t) \<le> lt_remaining t) \<and> (\<forall>i. i \<notin> lt_id ` set ts \<longrightarrow> d i = 0)
      \<and> n' = n - sum_list (map (\<lambda>t. d (lt_id t)) ts) \<and> 0 \<le> n'
      \<and> sorted_wrt (\<lambda>s t. 0 < d (lt_id t) \<longrightarrow> d (lt_id s) = lt_remaining s) ts
      \<and> (0 < n' \<longrightarrow> (\<forall>t \<in> set ts. d (lt_id t) = lt_remaining t)))"

lemma take_none: "(\<And>t. t \<in> set rows \<Longrightarrow> d (lt_id t) = 0) \<Longrightarrow> map (take_from d) rows = rows"
proof (rule map_idI)
  fix t assume zero: "\<And>t. t \<in> set rows \<Longrightarrow> d (lt_id t) = 0" and "t \<in> set rows"
  then have "d (lt_id t) = 0" by blast
  then show "take_from d t = t" by (simp only: take_from_def diff_0_right) (cases t, simp)
qed

lemma unique_row: "keys_unique key rows \<Longrightarrow> r \<in> set rows \<Longrightarrow> s \<in> set rows \<Longrightarrow> key r = key s \<Longrightarrow> r = s"
  unfolding keys_unique_def distinct_map by (auto dest: inj_onD)

lemma take_one:
  assumes "keys_unique lt_id rows" and "t \<in> set rows" and "lot_check t" and "0 \<le> x" "x \<le> lt_remaining t"
    and "\<forall>r \<in> set rows. lot_check r"
  shows "sql_update lot_check (\<lambda>r. lt_id r = lt_id t) (\<lambda>r. r\<lparr>lt_remaining := lt_remaining r - x\<rparr>) rows
    = Inr (map (take_from (\<lambda>i. if i = lt_id t then x else 0)) rows, length (filter (\<lambda>r. lt_id r = lt_id t) rows))"
proof -
  have only: "r = t" if "r \<in> set rows" "lt_id r = lt_id t" for r
    by (rule unique_row [OF assms(1) that(1) assms(2) that(2)])
  have "lot_check (r\<lparr>lt_remaining := lt_remaining r - x\<rparr>)" if "r \<in> set rows" "lt_id r = lt_id t" for r
    unfolding only [OF that] using assms(3-5) by (simp add: lot_check_def)
  then have "\<not> (\<exists>r \<in> set rows. lt_id r = lt_id t \<and> \<not> lot_check (r\<lparr>lt_remaining := lt_remaining r - x\<rparr>))" by blast
  moreover have "map (\<lambda>r. if lt_id r = lt_id t then r\<lparr>lt_remaining := lt_remaining r - x\<rparr> else r) rows
      = map (take_from (\<lambda>i. if i = lt_id t then x else 0)) rows"
    by (rule map_cong [OF refl]) (simp add: take_from_def)
  ultimately show ?thesis unfolding sql_update_def by simp
qed

lemma debited_Cons:
  assumes d: "debited d ts (n - x) n'" and dt: "d (lt_id t) = 0" and x: "x = min (lt_remaining t) n"
    and same: "\<And>s. s \<in> set ts \<Longrightarrow> e (lt_id s) = d (lt_id s)" and e: "e = d(lt_id t := x)"
    and bound: "0 \<le> x" "x \<le> lt_remaining t"
  shows "debited e (t # ts) n n'"
proof -
  have et: "e (lt_id t) = x" by (simp add: e)
  have sums: "sum_list (map (\<lambda>t. e (lt_id t)) ts) = sum_list (map (\<lambda>t. d (lt_id t)) ts)"
    by (rule arg_cong [of _ _ sum_list], rule map_cong [OF refl], rule same)
  have n': "n' = n - x - sum_list (map (\<lambda>t. d (lt_id t)) ts)" "0 \<le> n'" using d by (simp_all add: debited_def)
  have nonneg: "0 \<le> sum_list (map (\<lambda>t. d (lt_id t)) ts)" by (rule sum_list_nonneg) (use d in \<open>auto simp: debited_def\<close>)
  have full: "x = lt_remaining t" if "0 < n - x" using that x by (simp add: min_def split: if_splits)
  have none: "d (lt_id s) = 0" if "\<not> 0 < n - x" "s \<in> set ts" for s
  proof -
    have "sum_list (map (\<lambda>t. d (lt_id t)) ts) = 0" using that(1) n' nonneg by simp
    moreover have "d (lt_id s) \<le> sum_list (map (\<lambda>t. d (lt_id t)) ts)"
      by (rule sum_row_member [OF that(2)]) (use d in \<open>auto simp: debited_def\<close>)
    moreover have "0 \<le> d (lt_id s)" using d that(2) by (simp add: debited_def)
    ultimately show ?thesis by simp
  qed
  have first: "\<forall>s \<in> set ts. 0 < e (lt_id s) \<longrightarrow> e (lt_id t) = lt_remaining t"
  proof (intro ballI impI)
    fix s assume s: "s \<in> set ts" "0 < e (lt_id s)"
    then have "0 < n - x" using none [OF _ s(1)] same [OF s(1)] by (cases "0 < n - x") simp_all
    then show "e (lt_id t) = lt_remaining t" using full et by simp
  qed
  have rest: "sorted_wrt (\<lambda>s t. 0 < e (lt_id t) \<longrightarrow> e (lt_id s) = lt_remaining s) ts"
    by (rule sorted_wrt_mono_rel [of ts "\<lambda>s t. 0 < d (lt_id t) \<longrightarrow> d (lt_id s) = lt_remaining s"])
      (use d in \<open>simp_all add: debited_def same\<close>)
  have all: "\<forall>s \<in> set (t # ts). e (lt_id s) = lt_remaining s" if "0 < n'"
  proof -
    have "0 < n - x" using that n' nonneg by simp
    then have "e (lt_id t) = lt_remaining t" using full et by simp
    moreover have "\<forall>s \<in> set ts. d (lt_id s) = lt_remaining s" using d that by (simp add: debited_def)
    ultimately show ?thesis by (simp add: same)
  qed
  have bounds: "\<forall>s \<in> set (t # ts). 0 \<le> e (lt_id s) \<and> e (lt_id s) \<le> lt_remaining s"
    using d bound et by (simp add: debited_def same)
  have outside: "\<forall>i. i \<notin> lt_id ` set (t # ts) \<longrightarrow> e i = 0" using d by (simp add: debited_def e)
  show ?thesis
    unfolding debited_def
  proof (intro conjI bounds outside impI)
    show "n' = n - sum_list (map (\<lambda>t. e (lt_id t)) (t # ts))" using n'(1) sums et by simp
    show "sorted_wrt (\<lambda>s t. 0 < e (lt_id t) \<longrightarrow> e (lt_id s) = lt_remaining s) (t # ts)" using first rest by simp
  qed (use n'(2) all in blast)+
qed

lemma debit_lots_run:
  assumes "keys_unique lt_id rows" and "\<forall>r \<in> set rows. lot_check r" and "distinct (map lt_id ts)"
    and "\<forall>t \<in> set ts. t \<in> set rows \<and> 0 < lt_remaining t" and "text_of needed n" and "0 \<le> n"
  shows "\<exists>d n' needed'. debit_lots (map (\<lambda>t. (lt_id t, numeric_text (lt_remaining t))) ts) needed rows
        = Inr (needed', map (take_from d) rows) \<and> text_of needed' n' \<and> debited d ts n n'"
  using assms
proof (induction ts arbitrary: rows needed n)
  case Nil
  have "map (take_from (\<lambda>i. 0)) rows = rows" by (rule take_none) simp
  then show ?case using Nil by (intro exI [of _ "\<lambda>i. 0"] exI [of _ n] exI [of _ needed]) (simp add: debited_def)
next
  case (Cons t ts)
  show ?case
  proof (cases "0 < n")
    case False
    then have n: "n = 0" using Cons.prems(6) by simp
    have "map (take_from (\<lambda>i. 0)) rows = rows" by (rule take_none) simp
    moreover have "debited (\<lambda>i. 0) (t # ts) n 0"
      using Cons.prems(4) n by (auto simp: debited_def less_imp_le sorted_wrt_iff_nth_less)
    ultimately show ?thesis
      using False Cons.prems(5) n billingPositive_of [OF Cons.prems(5)]
      by (intro exI [of _ "\<lambda>i. 0"] exI [of _ 0] exI [of _ needed]) simp
  next
    case True
    have t: "t \<in> set rows" "0 < lt_remaining t" "lot_check t" using Cons.prems(2,4) by auto
    define x where "x = min (lt_remaining t) n"
    have x: "0 \<le> x" "x \<le> lt_remaining t" "x \<le> n" using t True by (simp_all add: x_def)
    obtain ded where ded: "billingMin (numeric_text (lt_remaining t)) needed = Inr ded" "text_of ded x"
      using billingMin_of [OF numeric_text_of Cons.prems(5)] unfolding x_def by blast
    obtain needed1 where n1: "billingSubtract needed ded = Inr needed1" "text_of needed1 (n - x)"
      using billingSubtract_of [OF Cons.prems(5) ded(2)] by blast
    have "numeric_range x" using t(3) x by (auto simp: lot_check_def numeric_range_def)
    then have range: "numeric_in ded = Inr x" using numeric_in_of [OF ded(2)] by simp
    define one where "one = (\<lambda>i. if i = lt_id t then x else 0)"
    let ?rows = "map (take_from one) rows"
    note upd = take_one [OF Cons.prems(1) t(1,3) x(1,2) Cons.prems(2), folded one_def]
    have fresh: "lt_id s \<noteq> lt_id t" if "s \<in> set ts" for s
      using Cons.prems(3) imageI [OF that, of lt_id] by auto
    have uniq: "keys_unique lt_id ?rows" using Cons.prems(1) by (simp add: keys_unique_def comp_def)
    have only: "r = t" if "r \<in> set rows" "lt_id r = lt_id t" for r
      by (rule unique_row [OF Cons.prems(1) that(1) t(1) that(2)])
    have checks: "\<forall>r \<in> set ?rows. lot_check r"
    proof
      fix r assume "r \<in> set ?rows"
      then obtain s where s: "s \<in> set rows" "r = take_from one s" by auto
      show "lot_check r"
      proof (cases "lt_id s = lt_id t")
        case True
        then show ?thesis using only [OF s(1)] t(3) x s(2) by (simp add: lot_check_def one_def)
      next
        case False
        then show ?thesis using Cons.prems(2) s by (simp add: take_from_def one_def)
      qed
    qed
    have stay: "\<forall>s \<in> set ts. s \<in> set ?rows \<and> 0 < lt_remaining s"
    proof
      fix s assume s: "s \<in> set ts"
      then have "take_from one s = s" using fresh by (simp add: take_from_def one_def)
      then show "s \<in> set ?rows \<and> 0 < lt_remaining s" using Cons.prems(4) s by (force intro: rev_image_eqI)
    qed
    obtain d n' needed' where IH: "debit_lots (map (\<lambda>t. (lt_id t, numeric_text (lt_remaining t))) ts) needed1 ?rows
        = Inr (needed', map (take_from d) ?rows)" "text_of needed' n'" "debited d ts (n - x) n'"
      using Cons.IH [OF uniq checks _ stay n1(2)] Cons.prems(3) x(3) by auto
    define e where "e = d(lt_id t := x)"
    have "lt_id t \<notin> lt_id ` set ts" using Cons.prems(3) by simp
    then have dt: "d (lt_id t) = 0" using IH(3) unfolding debited_def by blast
    have rows: "map (take_from d) ?rows = map (take_from e) rows"
      using dt by (auto simp: take_from_def one_def e_def)
    have same: "e (lt_id s) = d (lt_id s)" if "s \<in> set ts" for s using fresh [OF that] by (simp add: e_def)
    have "debited e (t # ts) n n'" by (rule debited_Cons [OF IH(3) dt x_def same e_def x(1,2)])
    then show ?thesis
      using True billingPositive_of [OF Cons.prems(5)] ded(1) n1(1) range upd IH(1,2) rows
      by (intro exI [of _ e] exI [of _ n'] exI [of _ needed']) (simp add: stored_amount_def)
  qed
qed

section \<open>The invariant\<close>

definition lots_total :: "cash_lot list \<Rightarrow> string \<Rightarrow> int" where
  "lots_total lots u = sum_list (map lt_remaining (filter (\<lambda>t. lt_user t = u) lots))"

definition ledger_total :: "BillingLedgerEntry list \<Rightarrow> string \<Rightarrow> int" where
  "ledger_total es u = sum_list (map bl_cash_delta (filter (\<lambda>e. bl_user e = u) es))"

definition cash_inv :: "cash_db \<Rightarrow> bool" where
  "cash_inv db =
     (keys_unique ca_user (cash_accounts db) \<and> keys_unique lt_id (cash_lots db) \<and> keys_unique bl_id (cash_ledger db)
      \<and> keys_unique bo_id (cash_operations db) \<and> 0 < bs_rate (cash_settings db)
      \<and> (\<forall>a \<in> set (cash_accounts db). account_check a \<and> ca_balance a = lots_total (cash_lots db) (ca_user a))
      \<and> (\<forall>t \<in> set (cash_lots db). lot_check t) \<and> (\<forall>e \<in> set (cash_ledger db). ledger_check e)
      \<and> (\<forall>r \<in> set (cash_operations db). \<forall>i. bo_result r = Some i \<longrightarrow>
           (\<exists>e \<in> set (cash_ledger db). bl_id e = i \<and> bl_operation e = bo_id r)))"

lemma fresh_id_new: "fresh_id ids \<notin> set ids"
proof -
  have "i \<le> foldr max ids 0" if "i \<in> set ids" for i using that by (induction ids) auto
  then show ?thesis unfolding fresh_id_def by force
qed

text \<open>
  \<open>posted db q user u e db'\<close>: a new operation \<open>q\<close> changed the cash of \<open>user\<close> by \<open>u\<close>, in the account, in the lots and
  in the one new ledger entry \<open>e\<close>, which is recorded as its result.
\<close>

definition posted :: "cash_db \<Rightarrow> billing_operation \<Rightarrow> string \<Rightarrow> int \<Rightarrow> BillingLedgerEntry \<Rightarrow> cash_db \<Rightarrow> bool" where
  "posted db q user u e db' =
     ((\<exists>f. cash_accounts db' = map (\<lambda>a. if ca_user a = user then f a else a) (cash_accounts db)
         \<and> (\<forall>a \<in> set (cash_accounts db). ca_user a = user \<longrightarrow>
              ca_user (f a) = user \<and> ca_balance (f a) = ca_balance a + u \<and> account_check (f a)))
      \<and> cash_ledger db' = cash_ledger db @ [e] \<and> bl_id e \<notin> bl_id ` set (cash_ledger db) \<and> ledger_check e
      \<and> bl_user e = user \<and> bl_cash_delta e = u \<and> bl_operation e = bo_id q
      \<and> keys_unique lt_id (cash_lots db') \<and> (\<forall>t \<in> set (cash_lots db'). lot_check t)
      \<and> (\<forall>v. lots_total (cash_lots db') v = lots_total (cash_lots db) v + (if v = user then u else 0))
      \<and> cash_operations db' = cash_operations db @ [q\<lparr>bo_result := Some (bl_id e)\<rparr>]
      \<and> bo_id q \<notin> bo_id ` set (cash_operations db) \<and> cash_users db' = cash_users db
      \<and> cash_tombstones db' = cash_tombstones db \<and> 0 < bs_rate (cash_settings db'))"

lemma posted_inv:
  assumes inv: "cash_inv db" and p: "posted db q user u e db'"
  shows "cash_inv db'"
proof -
  define r where "r = q\<lparr>bo_result := Some (bl_id e)\<rparr>"
  obtain f where acc: "cash_accounts db' = map (\<lambda>a. if ca_user a = user then f a else a) (cash_accounts db)"
    and f: "\<And>a. a \<in> set (cash_accounts db) \<Longrightarrow> ca_user a = user \<Longrightarrow>
              ca_user (f a) = user \<and> ca_balance (f a) = ca_balance a + u \<and> account_check (f a)"
    using p unfolding posted_def by auto
  have ops: "cash_operations db' = cash_operations db @ [r]" "bo_id r = bo_id q" "bo_result r = Some (bl_id e)"
    using p by (simp_all add: posted_def r_def)
  have ledger: "cash_ledger db' = cash_ledger db @ [e]" "bl_operation e = bo_id q" using p by (simp_all add: posted_def)
  have total: "lots_total (cash_lots db') v = lots_total (cash_lots db) v + (if v = user then u else 0)" for v
    using p by (simp add: posted_def)
  have users: "map ca_user (cash_accounts db') = map ca_user (cash_accounts db)"
    unfolding acc map_map by (rule map_cong [OF refl]) (auto simp: f)
  have accounts: "account_check a \<and> ca_balance a = lots_total (cash_lots db') (ca_user a)"
    if a: "a \<in> set (cash_accounts db')" for a
  proof -
    obtain b where b: "b \<in> set (cash_accounts db)" "a = (if ca_user b = user then f b else b)" using a unfolding acc by auto
    have old: "account_check b" "ca_balance b = lots_total (cash_lots db) (ca_user b)" using inv b(1) by (simp_all add: cash_inv_def)
    show ?thesis
    proof (cases "ca_user b = user")
      case True
      then show ?thesis using f [OF b(1) True] old b(2) total [of user] by simp
    next
      case False
      then show ?thesis using old b(2) total [of "ca_user b"] by simp
    qed
  qed
  have results: "\<exists>y \<in> set (cash_ledger db'). bl_id y = i \<and> bl_operation y = bo_id x"
    if "x \<in> set (cash_operations db')" "bo_result x = Some i" for x i
  proof (cases "x = r")
    case True
    then show ?thesis using that ops ledger by simp
  next
    case False
    then have "x \<in> set (cash_operations db)" using that ops by simp
    then show ?thesis using inv that(2) ledger(1) unfolding cash_inv_def by auto
  qed
  have "keys_unique bl_id (cash_ledger db')" "\<forall>x \<in> set (cash_ledger db'). ledger_check x"
    using inv p by (auto simp: posted_def cash_inv_def keys_unique_def)
  moreover have "keys_unique bo_id (cash_operations db')"
    using inv p ops by (simp add: posted_def cash_inv_def keys_unique_def)
  moreover have "keys_unique ca_user (cash_accounts db')" using inv users by (simp add: cash_inv_def keys_unique_def)
  moreover have "keys_unique lt_id (cash_lots db')" "\<forall>t \<in> set (cash_lots db'). lot_check t" "0 < bs_rate (cash_settings db')"
    using p by (simp_all add: posted_def)
  ultimately show ?thesis unfolding cash_inv_def using accounts results by blast
qed

section \<open>The steps of a transaction\<close>

lemma update_account_Inr:
  assumes "update_account db user f = Inr db'"
  shows "db' = db\<lparr>cash_accounts := map (\<lambda>a. if ca_user a = user then f a else a) (cash_accounts db)\<rparr>"
    and "a \<in> set (cash_accounts db) \<Longrightarrow> ca_user a = user \<Longrightarrow> account_check (f a)"
  using assms by (auto simp: update_account_def sql_update_def andThen_Inr split: if_splits)

lemma insert_ledger_Inr:
  assumes "insert_ledger db e0 = Inr (e, db')"
  shows "e = e0\<lparr>bl_id := fresh_id (map bl_id (cash_ledger db))\<rparr>" and "ledger_check e"
    and "db' = db\<lparr>cash_ledger := cash_ledger db @ [e]\<rparr>"
  using assms by (auto simp: insert_ledger_def Let_def split: if_splits)

lemma insert_lot_Inr:
  assumes "insert_lot db user n source u stamp = Inr db'"
  shows "\<exists>t. db' = db\<lparr>cash_lots := cash_lots db @ [t]\<rparr> \<and> lot_check t \<and> lt_user t = user \<and> lt_remaining t = u
       \<and> lt_id t \<notin> lt_id ` set (cash_lots db)"
  using assms fresh_id_new [of "map lt_id (cash_lots db)"] by (auto simp: insert_lot_def Let_def split: if_splits)

lemma finish_Inr:
  assumes "finishBillingOperationTx db op i = Inr db'" and "cash_operations db = ops @ [r]"
    and "op \<notin> bo_id ` set ops" and "bo_id r = op" and "bo_result r = None"
  shows "db' = db\<lparr>cash_operations := ops @ [r\<lparr>bo_result := Some i\<rparr>]\<rparr>"
proof -
  have "map (\<lambda>r. if bo_id r = op \<and> bo_result r = None then r\<lparr>bo_result := Some i\<rparr> else r) ops = ops"
    by (rule map_idI) (use assms(3) in auto)
  then show ?thesis using assms by (auto simp: finishBillingOperationTx_def split: if_splits)
qed

lemma finish_lots: "finishBillingOperationTx db op i = Inr db' \<Longrightarrow> cash_lots db' = cash_lots db"
  by (auto simp: finishBillingOperationTx_def split: if_splits)

lemma appendBillingAuditTx_Inr:
  assumes "appendBillingAuditTx refs db p k t s md = Inr db'"
  shows "\<exists>es. db' = db\<lparr>cash_events := es\<rparr>"
  using assms by (auto simp: appendBillingAuditTx_def andThen_Inr)

lemma claim_new:
  assumes "claimBillingOperationTx db p kind target fp compatible = Inr (None, db1)"
  shows "db1 = db\<lparr>cash_operations := cash_operations db @ [new_operation p kind target fp]\<rparr>"
    and "bw_OperationID p \<notin> bo_id ` set (cash_operations db)"
proof -
  have none: "row_lookup bo_id (bw_OperationID p) (cash_operations db) = None"
    using assms by (auto simp: claimBillingOperationTx_def Let_def split: if_splits option.splits)
  then show "db1 = db\<lparr>cash_operations := cash_operations db @ [new_operation p kind target fp]\<rparr>"
    using assms by (auto simp: claimBillingOperationTx_def Let_def split: if_splits)
  show "bw_OperationID p \<notin> bo_id ` set (cash_operations db)" using none by (auto simp: row_lookup_None)
qed

lemma lots_total_append: "lots_total (ts @ [t]) v = lots_total ts v + (if lt_user t = v then lt_remaining t else 0)"
  by (simp add: lots_total_def)

definition user_lots :: "cash_db \<Rightarrow> string \<Rightarrow> cash_lot list" where
  "user_lots db user = sort_key lt_sequence (filter (\<lambda>t. lt_user t = user \<and> lt_remaining t > 0) (cash_lots db))"

lemma set_user_lots: "set (user_lots db user) = {t \<in> set (cash_lots db). lt_user t = user \<and> 0 < lt_remaining t}"
  by (simp add: user_lots_def)

lemma distinct_user_lots: "keys_unique lt_id (cash_lots db) \<Longrightarrow> distinct (map lt_id (user_lots db user))"
  unfolding keys_unique_def user_lots_def by (simp add: distinct_map inj_on_def)

lemma sum_user_lots:
  fixes w :: "cash_lot \<Rightarrow> int"
  shows "sum_list (map w (user_lots db user)) = sum_list (map w (filter (\<lambda>t. lt_user t = user \<and> lt_remaining t > 0) (cash_lots db)))"
  unfolding user_lots_def sum_mset_sum_list [symmetric] mset_map by simp

lemma debited_total:
  assumes keys: "keys_unique lt_id (cash_lots db)" and d: "debited d (user_lots db user) n n'"
  shows "lots_total (map (take_from d) (cash_lots db)) v = lots_total (cash_lots db) v - (if v = user then n - n' else 0)"
proof -
  have zero: "d (lt_id t) = 0" if t: "t \<in> set (cash_lots db)" "\<not> (lt_user t = user \<and> 0 < lt_remaining t)" for t
  proof -
    have "lt_id t \<notin> lt_id ` set (user_lots db user)"
    proof
      assume "lt_id t \<in> lt_id ` set (user_lots db user)"
      then obtain s where s: "s \<in> set (cash_lots db)" "lt_user s = user" "0 < lt_remaining s" "lt_id t = lt_id s"
        unfolding set_user_lots by auto
      have "t = s" by (rule unique_row [OF keys t(1) s(1,4)])
      then show False using s t(2) by simp
    qed
    then show ?thesis using d unfolding debited_def by blast
  qed
  define w where "w = (\<lambda>t :: cash_lot. d (lt_id t))"
  have split: "lots_total (map (take_from d) ts) v = lots_total ts v - sum_list (map w (filter (\<lambda>t. lt_user t = v) ts))" for ts
    unfolding lots_total_def w_def by (induction ts) auto
  have "sum_list (map w (filter (\<lambda>t. lt_user t = v) (cash_lots db))) = (if v = user then n - n' else 0)"
  proof (cases "v = user")
    case True
    have "sum_list (map w (filter (\<lambda>t. 0 < lt_remaining t) (filter (\<lambda>t. lt_user t = user) (cash_lots db))))
        = sum_list (map w (filter (\<lambda>t. lt_user t = user) (cash_lots db)))"
      by (rule sum_rows_filter) (use zero in \<open>auto simp: w_def\<close>)
    moreover have "sum_list (map w (user_lots db user)) = n - n'" using d by (simp add: debited_def w_def)
    ultimately show ?thesis using True unfolding sum_user_lots by (simp add: conj_commute)
  next
    case False
    then show ?thesis by (simp, intro sum_rows_zero) (use zero in \<open>auto simp: w_def\<close>)
  qed
  then show ?thesis unfolding split by simp
qed

lemma debited_checks:
  assumes checks: "\<forall>t \<in> set (cash_lots db). lot_check t" and keys: "keys_unique lt_id (cash_lots db)"
    and d: "debited d (user_lots db user) n n'"
  shows "\<forall>t \<in> set (map (take_from d) (cash_lots db)). lot_check t"
proof -
  have "lot_check (take_from d t)" if t: "t \<in> set (cash_lots db)" for t
  proof (cases "lt_id t \<in> lt_id ` set (user_lots db user)")
    case True
    then obtain s where s: "s \<in> set (user_lots db user)" "lt_id t = lt_id s" by auto
    have "s \<in> set (cash_lots db)" using s(1) unfolding set_user_lots by simp
    then have "t = s" by (rule unique_row [OF keys t _ s(2)])
    then have "0 \<le> d (lt_id t)" "d (lt_id t) \<le> lt_remaining t" using d s(1) by (auto simp: debited_def)
    then show ?thesis using checks t by (auto simp: lot_check_def)
  next
    case False
    then have "d (lt_id t) = 0" using d unfolding debited_def by blast
    then show ?thesis using checks t by (simp add: lot_check_def)
  qed
  then show ?thesis by auto
qed

lemma debit_adjustment_cases:
  assumes keys: "keys_unique lt_id (cash_lots db)" and checks: "\<forall>t \<in> set (cash_lots db). lot_check t"
    and t: "text_of amount u" and u: "u \<le> 0"
  shows "\<exists>d n'. debit_adjustment user amount db
      = (if 0 < n' then Inl ErrConflict else Inr (db\<lparr>cash_lots := map (take_from d) (cash_lots db)\<rparr>))
    \<and> debited d (user_lots db user) (- u) n'"
proof -
  obtain needed0 where n0: "billingSubtract ''0'' amount = Inr needed0" "text_of needed0 (- u)"
    using billingSubtract_of [OF text_of_zero t] by auto
  have members: "\<forall>t \<in> set (user_lots db user). t \<in> set (cash_lots db) \<and> 0 < lt_remaining t" by (simp add: set_user_lots)
  obtain d n' needed' where d: "debit_lots (adjustment_lots db user) needed0 (cash_lots db) = Inr (needed', map (take_from d) (cash_lots db))"
    "text_of needed' n'" "debited d (user_lots db user) (- u) n'"
    using debit_lots_run [OF keys checks distinct_user_lots [OF keys] members n0(2)] u
    unfolding adjustment_lots_def user_lots_def by auto
  have "debit_adjustment user amount db
      = (if 0 < n' then Inl ErrConflict else Inr (db\<lparr>cash_lots := map (take_from d) (cash_lots db)\<rparr>))"
    using billingPositive_of [OF d(2)] by (simp add: debit_adjustment_def n0(1) stored_amount_def d(1))
  then show ?thesis using d(3) by blast
qed

lemma debit_adjustment_Inr:
  assumes "keys_unique lt_id (cash_lots db)" and "\<forall>t \<in> set (cash_lots db). lot_check t"
    and "text_of amount u" and "u \<le> 0" and run: "debit_adjustment user amount db = Inr db'"
  shows "\<exists>d. db' = db\<lparr>cash_lots := map (take_from d) (cash_lots db)\<rparr> \<and> debited d (user_lots db user) (- u) 0"
proof -
  obtain d n' where d: "debit_adjustment user amount db
      = (if 0 < n' then Inl ErrConflict else Inr (db\<lparr>cash_lots := map (take_from d) (cash_lots db)\<rparr>))"
    "debited d (user_lots db user) (- u) n'"
    using debit_adjustment_cases [OF assms(1-4)] by blast
  have "\<not> 0 < n'" using run d(1) by auto
  moreover have "0 \<le> n'" using d(2) by (simp add: debited_def)
  ultimately have "n' = 0" by simp
  then show ?thesis using run d by auto
qed

section \<open>The operations post one entry\<close>

lemma locked_account:
  assumes "cash_inv db" and "row_lookup ca_user user (cash_accounts db) = Some account"
  shows "account \<in> set (cash_accounts db)" and "ca_user account = user"
    and "\<And>a. a \<in> set (cash_accounts db) \<Longrightarrow> ca_user a = user \<Longrightarrow> a = account"
proof -
  show a: "account \<in> set (cash_accounts db)" "ca_user account = user" using row_lookup_Some [OF assms(2)] by simp_all
  show "a = account" if "a \<in> set (cash_accounts db)" "ca_user a = user" for a
    by (rule unique_row [of ca_user "cash_accounts db"]) (use assms(1) a that in \<open>simp_all add: cash_inv_def\<close>)
qed

lemma entry_posted:
  fixes f :: "billing_account \<Rightarrow> billing_account"
  assumes claim: "claimBillingOperationTx db p kind target fp cs = Inr (None, db1)"
    and db2: "db2 = db1\<lparr>cash_accounts := map (\<lambda>a. if ca_user a = user then f a else a) (cash_accounts db),
                cash_settings := setting, cash_lots := lots\<rparr>"
    and f: "\<And>a. a \<in> set (cash_accounts db) \<Longrightarrow> ca_user a = user \<Longrightarrow>
              ca_user (f a) = user \<and> ca_balance (f a) = ca_balance a + u \<and> account_check (f a)"
    and E: "insert_ledger db2 (entry\<lparr>bl_operation := bw_OperationID p\<rparr>) = Inr (e, db3)" "bl_user entry = user" "bl_cash_delta entry = u"
    and lots': "db4 = db3\<lparr>cash_lots := lots'\<rparr>" "keys_unique lt_id lots'" "\<forall>t \<in> set lots'. lot_check t"
      "\<And>v. lots_total lots' v = lots_total (cash_lots db) v + (if v = user then u else 0)"
    and finish: "finishBillingOperationTx db4 (bw_OperationID p) (bl_id e) = Inr db5"
    and audit: "appendBillingAuditTx refs db5 p event subject name md = Inr db'"
    and rate: "0 < bs_rate setting"
  shows "posted db (new_operation p kind target fp) user u e db'"
proof -
  note db1 = claim_new [OF claim]
  note e = insert_ledger_Inr [OF E(1)]
  define r where "r = new_operation p kind target fp"
  have ops4: "cash_operations db4 = cash_operations db @ [r]" by (simp add: lots'(1) e(3) db2 db1(1) r_def)
  have r: "bo_id r = bw_OperationID p" "bo_result r = None" by (simp_all add: r_def new_operation_def)
  have db5: "db5 = db4\<lparr>cash_operations := cash_operations db @ [r\<lparr>bo_result := Some (bl_id e)\<rparr>]\<rparr>"
    by (rule finish_Inr [OF finish ops4 db1(2) r])
  obtain es where db': "db' = db5\<lparr>cash_events := es\<rparr>" using appendBillingAuditTx_Inr [OF audit] by blast
  have fresh: "bl_id e \<notin> bl_id ` set (cash_ledger db)"
    using fresh_id_new [of "map bl_id (cash_ledger db)"] by (simp add: e(1) db2 db1(1))
  have row: "bl_user e = user" "bl_cash_delta e = u" "bl_operation e = bw_OperationID p"
    by (simp_all add: e(1) E(2,3))
  have tables: "cash_accounts db' = map (\<lambda>a. if ca_user a = user then f a else a) (cash_accounts db)"
    "cash_ledger db' = cash_ledger db @ [e]" "cash_lots db' = lots'" "cash_users db' = cash_users db"
    "cash_tombstones db' = cash_tombstones db" "cash_settings db' = setting"
    "cash_operations db' = cash_operations db @ [r\<lparr>bo_result := Some (bl_id e)\<rparr>]"
    by (simp_all add: db' db5 lots'(1) e(3) db2 db1(1))
  show ?thesis
    unfolding posted_def tables r_def [symmetric] r
    by (intro conjI exI [of _ f] ballI impI allI fresh e(2) row lots'(2-4) db1(2) rate refl) (simp_all add: f lots'(3))
qed

lemma credit_posted:
  assumes inv: "cash_inv db" and claim: "claimBillingOperationTx db p kind target fp cs = Inr (None, db1)"
    and run: "credit_recharge refs p user cny account db1 = Inr (e, db')"
  shows "\<exists>u. posted db (new_operation p kind target fp) user u e db' \<and> bl_balance_after e = Some (ca_balance account + u)"
proof -
  obtain u c db2 db3 db4 db5 event md where
    s: "update_account db1 user (\<lambda>a. a\<lparr>ca_balance := ca_balance a + u,
          ca_next_sequence := ca_next_sequence a + 1, ca_updated_at := bw_At p\<rparr>) = Inr db2"
      "insert_ledger db2 (ledger_row p user ''recharge'' u (Some (ca_balance account + u)) (Some c)
         (Some (bs_rate (cash_settings db1)))) = Inr (e, db3)"
      "insert_lot db3 user (ca_next_sequence account) (bl_id e) u (bw_At p) = Inr db4"
      "finishBillingOperationTx db4 (bw_OperationID p) (bl_id e) = Inr db5"
      "appendBillingAuditTx refs db5 p event ''user'' user md = Inr db'"
    using run unfolding credit_recharge_def Let_def by (auto elim!: andThen_InrE)
  define f :: "billing_account \<Rightarrow> billing_account" where
    "f = (\<lambda>a. a\<lparr>ca_balance := ca_balance a + u, ca_next_sequence := ca_next_sequence a + 1, ca_updated_at := bw_At p\<rparr>)"
  define e0 where "e0 = ledger_row p user ''recharge'' u (Some (ca_balance account + u)) (Some c) (Some (bs_rate (cash_settings db1)))"
  note db1 = claim_new(1) [OF claim]
  note db2 = update_account_Inr [OF s(1) [folded f_def]]
  note e = insert_ledger_Inr [OF s(2)]
  obtain t where t: "db4 = db3\<lparr>cash_lots := cash_lots db3 @ [t]\<rparr>" "lot_check t" "lt_user t = user" "lt_remaining t = u"
    "lt_id t \<notin> lt_id ` set (cash_lots db3)"
    using insert_lot_Inr [OF s(3)] by blast
  have lots3: "cash_lots db3 = cash_lots db" by (simp add: e(3) db2(1) db1)
  have "posted db (new_operation p kind target fp) user u e db'"
  proof (rule entry_posted [OF claim, where entry = e0 and f = f])
    show "db2 = db1\<lparr>cash_accounts := map (\<lambda>a. if ca_user a = user then f a else a) (cash_accounts db),
        cash_settings := cash_settings db, cash_lots := cash_lots db\<rparr>" by (simp add: db2(1) db1)
    show "ca_user (f a) = user \<and> ca_balance (f a) = ca_balance a + u \<and> account_check (f a)"
      if a: "a \<in> set (cash_accounts db)" "ca_user a = user" for a
      using db2(2) [of a] a by (simp add: db1) (simp add: f_def)
    show "insert_ledger db2 (e0\<lparr>bl_operation := bw_OperationID p\<rparr>) = Inr (e, db3)"
      using s(2) by (simp add: e0_def ledger_row_def)
    show "keys_unique lt_id (cash_lots db @ [t])" using inv t(5) lots3 by (simp add: cash_inv_def keys_unique_def)
    show "\<forall>x \<in> set (cash_lots db @ [t]). lot_check x" using inv t(2) by (simp add: cash_inv_def)
  qed (use inv s(4,5) t lots3 in \<open>simp_all add: e0_def ledger_row_def lots_total_append cash_inv_def\<close>)
  then show ?thesis using e(1) by (auto simp: ledger_row_def)
qed

lemma adjustment_steps:
  assumes t: "text_of amount v" and run: "apply_adjustment refs p user amount account db = Inr (e, db')"
  shows "\<exists>db1 db2 db3 db4 db5.
     (if 0 < v then db1 = db else debit_adjustment user amount db = Inr db1)
   \<and> update_account db1 user (\<lambda>a. a\<lparr>ca_balance := ca_balance account + v,
       ca_next_sequence := (if 0 < v then ca_next_sequence account + 1 else ca_next_sequence account),
       ca_updated_at := bw_At p\<rparr>) = Inr db2
   \<and> insert_ledger db2 (ledger_row p user ''adjustment'' v (Some (ca_balance account + v)) None None) = Inr (e, db3)
   \<and> (if 0 < v then insert_lot db3 user (ca_next_sequence account) (bl_id e) v (bw_At p) = Inr db4 else db4 = db3)
   \<and> finishBillingOperationTx db4 (bw_OperationID p) (bl_id e) = Inr db5
   \<and> appendBillingAuditTx refs db5 p ''billing.adjusted'' ''user'' user
       [(''operation_id'', MString (bw_OperationID p)), (''usd_amount'', MString amount)] = Inr db'
   \<and> 0 \<le> ca_balance account + v"
proof -
  obtain s where s: "billingAdd (numeric_text (ca_balance account)) amount = Inr s" "text_of s (ca_balance account + v)"
    using billingAdd_of [OF numeric_text_of t] by blast
  note facts = s(1) billingRat_of [OF s(2)] numeric_in_of [OF s(2)] numeric_in_of [OF t] billingPositive_of [OF t]
  have sign: "(of_int (ca_balance account + v) / 10 ^ 12 :: rat) < 0 \<longleftrightarrow> ca_balance account + v < 0"
    by (simp only: divide_less_0_iff of_int_less_0_iff) simp
  show ?thesis
  proof (cases "0 < v")
    case True
    show ?thesis
      using run True unfolding apply_adjustment_def facts stored_amount_def Let_def andThen_guard
      by (auto simp: facts(2,3) sign simp del: of_int_add elim!: andThen_InrE split: if_splits)
  next
    case False
    show ?thesis
      using run False unfolding apply_adjustment_def facts stored_amount_def Let_def andThen_guard
      by (auto simp: facts(2,3) sign simp del: of_int_add elim!: andThen_InrE split: if_splits)
  qed
qed

lemma adjustment_posted:
  assumes inv: "cash_inv db" and claim: "claimBillingOperationTx db p kind target fp cs = Inr (None, db1)"
    and lock: "row_lookup ca_user user (cash_accounts db) = Some account" and t: "text_of amount v"
    and run: "apply_adjustment refs p user amount account db1 = Inr (e, db')"
  shows "posted db (new_operation p kind target fp) user v e db'" and "bl_balance_after e = Some (ca_balance account + v)"
    and "v \<le> 0 \<Longrightarrow> \<exists>d. cash_lots db' = map (take_from d) (cash_lots db) \<and> debited d (user_lots db user) (- v) 0"
proof -
  obtain db2 db3 db4 db5 db6 event md where
    s: "if 0 < v then db2 = db1 else debit_adjustment user amount db1 = Inr db2"
      "update_account db2 user (\<lambda>a. a\<lparr>ca_balance := ca_balance account + v,
         ca_next_sequence := (if 0 < v then ca_next_sequence account + 1 else ca_next_sequence account),
         ca_updated_at := bw_At p\<rparr>) = Inr db3"
      "insert_ledger db3 (ledger_row p user ''adjustment'' v (Some (ca_balance account + v)) None None) = Inr (e, db4)"
      "if 0 < v then insert_lot db4 user (ca_next_sequence account) (bl_id e) v (bw_At p) = Inr db5 else db5 = db4"
      "finishBillingOperationTx db5 (bw_OperationID p) (bl_id e) = Inr db6"
      "appendBillingAuditTx refs db6 p event ''user'' user md = Inr db'"
    using adjustment_steps [OF t run] by blast
  define f :: "billing_account \<Rightarrow> billing_account" where
    "f = (\<lambda>a. a\<lparr>ca_balance := ca_balance account + v,
         ca_next_sequence := (if 0 < v then ca_next_sequence account + 1 else ca_next_sequence account), ca_updated_at := bw_At p\<rparr>)"
  define e0 where "e0 = ledger_row p user ''adjustment'' v (Some (ca_balance account + v)) None None"
  note db1 = claim_new(1) [OF claim]
  note db3 = update_account_Inr [OF s(2) [folded f_def]]
  note e = insert_ledger_Inr [OF s(3)]
  have keys: "keys_unique lt_id (cash_lots db)" and checks: "\<forall>t \<in> set (cash_lots db). lot_check t"
    using inv by (simp_all add: cash_inv_def)
  have lots1: "cash_lots db1 = cash_lots db" "user_lots db1 user = user_lots db user" by (simp_all add: db1 user_lots_def)
  have debit: "\<exists>d. db2 = db1\<lparr>cash_lots := map (take_from d) (cash_lots db)\<rparr> \<and> debited d (user_lots db user) (- v) 0" if v: "v \<le> 0"
    using debit_adjustment_Inr [of db1 amount v user db2] keys checks t v s(1) unfolding lots1 by simp
  have db2: "db2 = db1\<lparr>cash_lots := cash_lots db2\<rparr>"
    by (cases "0 < v") (use s(1) debit in auto)
  have lots: "db5 = db4\<lparr>cash_lots := cash_lots db5\<rparr> \<and> keys_unique lt_id (cash_lots db5) \<and> (\<forall>t \<in> set (cash_lots db5). lot_check t)
      \<and> (\<forall>w. lots_total (cash_lots db5) w = lots_total (cash_lots db) w + (if w = user then v else 0))"
  proof (cases "0 < v")
    case True
    have lots4: "cash_lots db4 = cash_lots db" using True s(1) by (simp add: e(3) db3(1) lots1)
    obtain x where x: "db5 = db4\<lparr>cash_lots := cash_lots db4 @ [x]\<rparr>" "lot_check x" "lt_user x = user" "lt_remaining x = v"
      "lt_id x \<notin> lt_id ` set (cash_lots db4)"
      using insert_lot_Inr [OF s(4) [unfolded if_P [OF True]]] by blast
    have "keys_unique lt_id (cash_lots db @ [x])" using keys x(5) lots4 by (simp add: keys_unique_def)
    then show ?thesis using checks x(1-4) lots4 by (simp add: lots_total_append)
  next
    case False
    then obtain d where d: "db2 = db1\<lparr>cash_lots := map (take_from d) (cash_lots db)\<rparr>" "debited d (user_lots db user) (- v) 0"
      using debit by auto
    have db5: "db5 = db4" using s(4) False by simp
    have lots5: "cash_lots db5 = map (take_from d) (cash_lots db)" by (simp add: db5 e(3) db3(1) d(1))
    have "keys_unique lt_id (map (take_from d) (cash_lots db))" using keys by (simp add: keys_unique_def comp_def)
    then show ?thesis unfolding lots5
      using debited_checks [OF checks keys d(2)] debited_total [OF keys d(2)] lots5 db5 by simp
  qed
  show "posted db (new_operation p kind target fp) user v e db'"
  proof (rule entry_posted [OF claim, where entry = e0 and f = f and refs = refs])
    show "db3 = db1\<lparr>cash_accounts := map (\<lambda>a. if ca_user a = user then f a else a) (cash_accounts db),
        cash_settings := cash_settings db, cash_lots := cash_lots db2\<rparr>"
      unfolding db3(1) by (subst db2, subst (2) db2) (simp add: db1)
    show "ca_user (f a) = user \<and> ca_balance (f a) = ca_balance a + v \<and> account_check (f a)"
      if a: "a \<in> set (cash_accounts db)" "ca_user a = user" for a
    proof -
      have "a = account" by (rule locked_account(3) [OF inv lock a])
      moreover have "cash_accounts db2 = cash_accounts db" by (subst db2) (simp add: db1)
      ultimately show ?thesis using db3(2) [of a] a by simp (simp add: f_def)
    qed
    show "insert_ledger db3 (e0\<lparr>bl_operation := bw_OperationID p\<rparr>) = Inr (e, db4)"
      using s(3) by (simp add: e0_def ledger_row_def)
    show "db5 = db4\<lparr>cash_lots := cash_lots db5\<rparr>" using lots by blast
    show "0 < bs_rate (cash_settings db)" using inv by (simp add: cash_inv_def)
  qed (use lots s(5,6) in \<open>simp_all add: e0_def ledger_row_def\<close>)
  show "bl_balance_after e = Some (ca_balance account + v)" by (simp add: e(1) ledger_row_def)
  show "\<exists>d. cash_lots db' = map (take_from d) (cash_lots db) \<and> debited d (user_lots db user) (- v) 0" if "v \<le> 0"
  proof -
    obtain d where d: "db2 = db1\<lparr>cash_lots := map (take_from d) (cash_lots db)\<rparr>" "debited d (user_lots db user) (- v) 0"
      using debit \<open>v \<le> 0\<close> by blast
    obtain es where "db' = db6\<lparr>cash_events := es\<rparr>" using appendBillingAuditTx_Inr [OF s(6)] by blast
    then have "cash_lots db' = cash_lots db5" using finish_lots [OF s(5)] by simp
    moreover have "db5 = db4" using s(4) that by simp
    ultimately show ?thesis using d by (auto simp: e(3) db3(1))
  qed
qed

lemma rate_posted:
  assumes inv: "cash_inv db" and claim: "claimBillingOperationTx db p kind target fp cs = Inr (None, db1)"
    and run: "set_rate refs p rate db1 = Inr (x, db')"
  shows "\<exists>e. posted db (new_operation p kind target fp) (bw_ActorUserID p) 0 e db'"
proof -
  obtain r db2 e db3 event md where
    s: "0 < r" "insert_ledger (db1\<lparr>cash_settings := \<lparr>bs_rate = r, bs_updated_at = bw_At p, bs_updated_by = Some (bw_ActorUserID p)\<rparr>\<rparr>)
          (ledger_row p (bw_ActorUserID p) ''recharge_rate'' 0 None None (Some r)) = Inr (e, db2)"
      "finishBillingOperationTx db2 (bw_OperationID p) (bl_id e) = Inr db3"
      "appendBillingAuditTx refs db3 p event ''billing_settings'' ''global'' md = Inr db'"
    using run unfolding set_rate_def Let_def by (auto elim!: andThen_InrE)
  define setting where "setting = \<lparr>bs_rate = r, bs_updated_at = bw_At p, bs_updated_by = Some (bw_ActorUserID p)\<rparr>"
  define e0 where "e0 = ledger_row p (bw_ActorUserID p) ''recharge_rate'' 0 None None (Some r)"
  note db1 = claim_new(1) [OF claim]
  note e = insert_ledger_Inr [OF s(2)]
  have lots2: "cash_lots db2 = cash_lots db" by (simp add: e(3) db1)
  have "posted db (new_operation p kind target fp) (bw_ActorUserID p) 0 e db'"
  proof (rule entry_posted [OF claim, where entry = e0 and f = "\<lambda>a. a" and refs = refs])
    show "db1\<lparr>cash_settings := setting\<rparr> = db1\<lparr>cash_accounts := map (\<lambda>a. if ca_user a = bw_ActorUserID p then a else a) (cash_accounts db),
        cash_settings := setting, cash_lots := cash_lots db\<rparr>" by (simp add: db1)
    show "ca_user a = bw_ActorUserID p \<and> ca_balance a = ca_balance a + 0 \<and> account_check a"
      if a: "a \<in> set (cash_accounts db)" "ca_user a = bw_ActorUserID p" for a
      using inv a by (simp add: cash_inv_def)
    show "insert_ledger (db1\<lparr>cash_settings := setting\<rparr>) (e0\<lparr>bl_operation := bw_OperationID p\<rparr>) = Inr (e, db2)"
      using s(2) by (simp add: e0_def ledger_row_def setting_def)
    show "db2 = db2\<lparr>cash_lots := cash_lots db\<rparr>" unfolding lots2 [symmetric] by simp
    show "keys_unique lt_id (cash_lots db)" "\<forall>t \<in> set (cash_lots db). lot_check t" using inv by (simp_all add: cash_inv_def)
  qed (use s in \<open>simp_all add: e0_def ledger_row_def setting_def\<close>)
  then show ?thesis by blast
qed

end
