(* ===== verification/Cash_Writers.thy ===== *)
theory Cash_Writers
  imports Cash_Accounting
begin

text \<open>
  The contract the cash writes share. A write either leaves the database as it was, because it failed or is a replay, or
  posts exactly one ledger entry for its operation. What follows from that (the constraints of the tables, the agreement
  of balances with the ledger, the survival of what was written) is proved once in the locale and interpreted for
  \<open>RechargeUser\<close>, \<open>AdjustUserBalance\<close> and \<open>SetRechargeRate\<close>.
\<close>

section \<open>What a posting keeps\<close>

definition cash_kept :: "cash_db \<Rightarrow> cash_db \<Rightarrow> bool" where
  "cash_kept db db' =
     (set (cash_ledger db) \<subseteq> set (cash_ledger db') \<and> cash_users db' = cash_users db \<and> cash_tombstones db' = cash_tombstones db
      \<and> (\<forall>r \<in> set (cash_operations db). r \<in> set (cash_operations db'))
      \<and> map ca_user (cash_accounts db') = map ca_user (cash_accounts db)
      \<and> (\<forall>v. lots_total (cash_lots db') v - ledger_total (cash_ledger db') v
            = lots_total (cash_lots db) v - ledger_total (cash_ledger db) v))"

lemma cash_kept_refl [simp]: "cash_kept db db"
  by (simp add: cash_kept_def)

lemma cash_kept_trans: "cash_kept a b \<Longrightarrow> cash_kept b c \<Longrightarrow> cash_kept a c"
  unfolding cash_kept_def by (simp add: subset_iff)

lemma posted_kept:
  assumes "posted db q user u e db'"
  shows "cash_kept db db'"
proof -
  obtain f where acc: "cash_accounts db' = map (\<lambda>a. if ca_user a = user then f a else a) (cash_accounts db)"
    and f: "\<And>a. a \<in> set (cash_accounts db) \<Longrightarrow> ca_user a = user \<Longrightarrow> ca_user (f a) = user"
    using assms unfolding posted_def by auto
  have "map ca_user (cash_accounts db') = map ca_user (cash_accounts db)"
    unfolding acc map_map by (rule map_cong [OF refl]) (auto simp: f)
  then show ?thesis using assms by (auto simp: posted_def cash_kept_def ledger_total_def)
qed

locale ledger_writer =
  fixes run :: "cash_db \<Rightarrow> 'r \<times> cash_db" and op :: string
  assumes outcome: "cash_inv db \<Longrightarrow> run db = (x, db') \<Longrightarrow> db' = db \<or> (\<exists>q user u e. posted db q user u e db' \<and> bo_id q = op)"
begin

lemma keeps_inv: "cash_inv db \<Longrightarrow> cash_inv (snd (run db))"
  using outcome [of db "fst (run db)" "snd (run db)"] posted_inv by (metis prod.collapse)

lemma keeps_rows: "cash_inv db \<Longrightarrow> cash_kept db (snd (run db))"
  using outcome [of db "fst (run db)" "snd (run db)"] posted_kept cash_kept_refl by (metis prod.collapse)

lemma one_entry: "cash_inv db \<Longrightarrow> snd (run db) = db \<or> (\<exists>e. cash_ledger (snd (run db)) = cash_ledger db @ [e] \<and> bl_operation e = op)"
  using outcome [of db "fst (run db)" "snd (run db)"] unfolding posted_def by (metis prod.collapse)

end

section \<open>The three writes\<close>

definition replayed :: "cash_db \<Rightarrow> BillingWriteParams \<Rightarrow> string \<Rightarrow> string \<Rightarrow> string \<Rightarrow> BillingLedgerEntry \<Rightarrow> bool" where
  "replayed db p kind target fp e =
     (e \<in> set (cash_ledger db) \<and> bw_OperationID p \<notin> set (cash_tombstones db) \<and> operation_check (new_operation p kind target fp)
      \<and> (\<exists>r \<in> set (cash_operations db). bo_id r = bw_OperationID p \<and> bo_type r = kind \<and> bo_actor r = bw_ActorUserID p
            \<and> bo_target r = target \<and> bo_fingerprint r = fp \<and> bo_result r = Some (bl_id e)))"

lemma replayed_kept: "replayed db p kind target fp e \<Longrightarrow> cash_kept db db' \<Longrightarrow> replayed db' p kind target fp e"
  unfolding replayed_def cash_kept_def by auto

lemma replayed_claim:
  assumes "cash_inv db" and "replayed db p kind target fp e"
  shows "claimBillingOperationTx db p kind target fp [] = Inr (Some (bl_id e), db)"
    and "replayBillingLedgerTx db (bl_id e) = Inr e"
proof -
  obtain r where r: "r \<in> set (cash_operations db)" "bo_id r = bw_OperationID p" "bo_type r = kind" "bo_actor r = bw_ActorUserID p"
    "bo_target r = target" "bo_fingerprint r = fp" "bo_result r = Some (bl_id e)"
    using assms(2) unfolding replayed_def by blast
  have "keys_unique bo_id (cash_operations db)" and keys: "keys_unique bl_id (cash_ledger db)"
    using assms(1) by (simp_all add: cash_inv_def)
  then have "row_lookup bo_id (bw_OperationID p) (cash_operations db) = Some r" using row_lookup_unique r(1,2) by metis
  then show "claimBillingOperationTx db p kind target fp [] = Inr (Some (bl_id e), db)"
    using assms(2) r by (simp add: claimBillingOperationTx_def replayed_def Let_def)
  show "replayBillingLedgerTx db (bl_id e) = Inr e"
    using row_lookup_unique [OF keys] assms(2) by (simp add: replayBillingLedgerTx_def replayed_def)
qed

lemma claim_old:
  assumes "claimBillingOperationTx db p kind target fp [] = Inr (Some i, db1)"
  shows "db1 = db" and "replayBillingLedgerTx db i = Inr e \<Longrightarrow> replayed db p kind target fp e"
proof -
  obtain r where r: "row_lookup bo_id (bw_OperationID p) (cash_operations db) = Some r"
    using assms by (auto simp: claimBillingOperationTx_def Let_def split: if_splits option.splits)
  show "db1 = db" using assms r by (auto simp: claimBillingOperationTx_def Let_def split: if_splits)
  have fields': "bo_type r = kind" "bo_actor r = bw_ActorUserID p" "bo_target r = target" "bo_fingerprint r = fp" "bo_result r = Some i"
    "bw_OperationID p \<notin> set (cash_tombstones db)" "operation_check (new_operation p kind target fp)"
    using assms r by (auto simp: claimBillingOperationTx_def Let_def split: if_splits)
  assume "replayBillingLedgerTx db i = Inr e"
  then have "row_lookup bl_id i (cash_ledger db) = Some e" by (simp add: replayBillingLedgerTx_def split: option.splits)
  then show "replayed db p kind target fp e"
    using fields' row_lookup_Some [OF r] row_lookup_Some [of bl_id i "cash_ledger db" e] unfolding replayed_def by auto
qed

text \<open>The transaction the recharge and the adjustment share: the replay, or the new posting by \<open>body\<close>.\<close>

definition user_write ::
  "cash_db \<Rightarrow> BillingWriteParams \<Rightarrow> string \<Rightarrow> string \<Rightarrow> string
   \<Rightarrow> (billing_account \<Rightarrow> cash_db \<Rightarrow> store_error + (BillingLedgerEntry \<times> cash_db)) \<Rightarrow> store_error + (BillingLedgerEntry \<times> cash_db)" where
  "user_write db p kind user fp body =
     andThen (lockBillingAccountTx db user) (\<lambda>account.
     andThen (claimBillingOperationTx db p kind user fp []) (\<lambda>(replay, db1).
     case replay of
       Some i \<Rightarrow> andThen (replayBillingLedgerTx db1 i) (\<lambda>entry. Inr (entry, db1))
     | None \<Rightarrow> body account db1))"

lemma user_write_ok:
  assumes "user_write db p kind user fp body = Inr (e, db')"
  shows "\<exists>account. lockBillingAccountTx db user = Inr account
    \<and> ((db' = db \<and> replayed db p kind user fp e)
       \<or> (\<exists>db1. claimBillingOperationTx db p kind user fp [] = Inr (None, db1) \<and> body account db1 = Inr (e, db')))"
proof -
  obtain account c db1 where s: "lockBillingAccountTx db user = Inr account"
    "claimBillingOperationTx db p kind user fp [] = Inr (c, db1)"
    "(case c of Some i \<Rightarrow> andThen (replayBillingLedgerTx db1 i) (\<lambda>entry. Inr (entry, db1)) | None \<Rightarrow> body account db1) = Inr (e, db')"
    using assms unfolding user_write_def by (auto elim!: andThen_InrE)
  show ?thesis
  proof (cases c)
    case None
    then show ?thesis using s by auto
  next
    case (Some i)
    then have c: "claimBillingOperationTx db p kind user fp [] = Inr (Some i, db1)" using s(2) by simp
    have "replayBillingLedgerTx db i = Inr e" "db' = db"
      using s(3) unfolding Some claim_old(1) [OF c] by (auto elim!: andThen_InrE)
    then show ?thesis using claim_old(2) [OF c] s(1) by blast
  qed
qed

lemma user_write_replayed:
  assumes "cash_inv db" and "replayed db p kind user fp e" and "lockBillingAccountTx db user = Inr account"
  shows "user_write db p kind user fp body = Inr (e, db)"
  unfolding user_write_def using assms(3) replayed_claim [OF assms(1,2)] by simp

lemma lockBillingAccountTx_Inr:
  "lockBillingAccountTx db user = Inr account \<Longrightarrow> row_lookup ca_user user (cash_accounts db) = Some account"
  by (auto simp: lockBillingAccountTx_def elim!: andThen_InrE split: option.splits)

lemma lock_kept:
  assumes "lockBillingAccountTx db user = Inr account" and "cash_kept db db'"
  shows "\<exists>account'. lockBillingAccountTx db' user = Inr account'"
proof -
  have status: "lockNonPendingUserTx db' user = Inr ()"
    using assms unfolding lockBillingAccountTx_def lockNonPendingUserTx_def cash_kept_def
    by (auto elim!: andThen_InrE split: option.splits if_splits)
  have "user \<in> ca_user ` set (cash_accounts db)"
    using row_lookup_Some [OF lockBillingAccountTx_Inr [OF assms(1)]] by auto
  then have "user \<in> set (map ca_user (cash_accounts db'))" using assms(2) by (simp add: cash_kept_def)
  then obtain a where "row_lookup ca_user user (cash_accounts db') = Some a"
    using row_lookup_None [of ca_user user "cash_accounts db'"] by (cases "row_lookup ca_user user (cash_accounts db')") auto
  then show ?thesis using status by (simp add: lockBillingAccountTx_def)
qed

text \<open>What a successful posting leaves for a replay.\<close>

lemma posted_replayed:
  assumes claim: "claimBillingOperationTx db p kind target fp [] = Inr (None, db1)"
    and p: "posted db (new_operation p kind target fp) user u e db'"
  shows "replayed db' p kind target fp e"
proof -
  define r where "r = (new_operation p kind target fp)\<lparr>bo_result := Some (bl_id e)\<rparr>"
  have "r \<in> set (cash_operations db')" using p by (simp add: posted_def r_def)
  moreover have "bo_id r = bw_OperationID p" "bo_type r = kind" "bo_actor r = bw_ActorUserID p" "bo_target r = target"
    "bo_fingerprint r = fp" "bo_result r = Some (bl_id e)" by (simp_all add: r_def new_operation_def)
  moreover have "bw_OperationID p \<notin> set (cash_tombstones db)" "operation_check (new_operation p kind target fp)"
    using claim by (auto simp: claimBillingOperationTx_def Let_def split: if_splits)
  moreover have "e \<in> set (cash_ledger db')" "cash_tombstones db' = cash_tombstones db" using p by (simp_all add: posted_def)
  ultimately show ?thesis unfolding replayed_def by auto
qed

section \<open>Recharge\<close>

abbreviation recharge_fingerprint where
  "recharge_fingerprint sha p user cny \<equiv>
     billingOperationFingerprint sha [''recharge'', bw_ActorUserID p, user, bw_Reason p, cny]"

abbreviation adjustment_fingerprint where
  "adjustment_fingerprint sha p user amount \<equiv>
     billingOperationFingerprint sha [''adjustment'', bw_ActorUserID p, user, bw_Reason p, amount]"

lemma RechargeUser_error: "RechargeUser refs sha db p0 user amount now = (Inl x, db') \<Longrightarrow> db' = db"
  by (auto simp: RechargeUser_def Let_def split: sum.splits if_splits dest: withTx_error)

lemma RechargeUser_ok:
  "RechargeUser refs sha db p0 user amount now = (Inr e, db') \<longleftrightarrow>
     validateBillingWrite p0 = Inr () \<and> user \<noteq> []
     \<and> (\<exists>cny. ParseInput amount False False = Inr cny
         \<and> user_write db (normalized_params p0 now) ''recharge'' user (recharge_fingerprint sha (normalized_params p0 now) user cny)
             (credit_recharge refs (normalized_params p0 now) user cny) = Inr (e, db'))"
  unfolding RechargeUser_def Let_def user_write_def by (auto simp: withTx_ok split: sum.splits)

lemma AdjustUserBalance_error: "AdjustUserBalance refs sha db p0 user amount now = (Inl x, db') \<Longrightarrow> db' = db"
  by (auto simp: AdjustUserBalance_def Let_def split: sum.splits if_splits dest: withTx_error)

lemma AdjustUserBalance_ok:
  "AdjustUserBalance refs sha db p0 user given now = (Inr e, db') \<longleftrightarrow>
     validateBillingWrite p0 = Inr () \<and> user \<noteq> []
     \<and> (\<exists>amount. ParseInput given True False = Inr amount
         \<and> user_write db (normalized_params p0 now) ''adjustment'' user (adjustment_fingerprint sha (normalized_params p0 now) user amount)
             (apply_adjustment refs (normalized_params p0 now) user amount) = Inr (e, db'))"
  unfolding AdjustUserBalance_def Let_def user_write_def by (auto simp: withTx_ok split: sum.splits)

lemma ParseInput_text: "ParseInput x signed allowZero = Inr c \<Longrightarrow> \<exists>v. text_of c v \<and> numeric_range v"
  unfolding ParseInput_def by (drule parseBounded_text) auto

lemma normalized_id [simp]: "bw_OperationID (normalized_params p now) = bw_OperationID p"
  by (simp add: normalized_params_def)

lemma new_operation_id [simp]: "bo_id (new_operation p kind target fp) = bw_OperationID p"
  by (simp add: new_operation_def)

lemma posted_new:
  "posted db (new_operation (normalized_params p now) kind target fp) user u e db'
   \<Longrightarrow> \<exists>q user u e. posted db q user u e db' \<and> bo_id q = bw_OperationID p"
  by (intro exI conjI, assumption) simp

interpretation recharge: ledger_writer "\<lambda>db. RechargeUser refs sha db p user amount now" "bw_OperationID p"
  for refs sha p user amount now
proof
  fix db x db' assume inv: "cash_inv db" and run: "RechargeUser refs sha db p user amount now = (x, db')"
  show "db' = db \<or> (\<exists>q v u e. posted db q v u e db' \<and> bo_id q = bw_OperationID p)"
  proof (cases x)
    case (Inr e)
    then obtain c where c: "user_write db (normalized_params p now) ''recharge'' user
        (recharge_fingerprint sha (normalized_params p now) user c) (credit_recharge refs (normalized_params p now) user c) = Inr (e, db')"
      using run RechargeUser_ok by blast
    show ?thesis using user_write_ok [OF c]
    proof (elim exE conjE disjE)
      fix account db1
      assume claim: "claimBillingOperationTx db (normalized_params p now) ''recharge'' user
          (recharge_fingerprint sha (normalized_params p now) user c) [] = Inr (None, db1)"
        and body: "credit_recharge refs (normalized_params p now) user c account db1 = Inr (e, db')"
      obtain u where "posted db (new_operation (normalized_params p now) ''recharge'' user
          (recharge_fingerprint sha (normalized_params p now) user c)) user u e db'"
        using credit_posted [OF inv claim body] by blast
      then show ?thesis by (rule disjI2 [OF posted_new])
    qed simp
  qed (use run RechargeUser_error in blast)
qed

interpretation adjustment: ledger_writer "\<lambda>db. AdjustUserBalance refs sha db p user amount now" "bw_OperationID p"
  for refs sha p user amount now
proof
  fix db x db' assume inv: "cash_inv db" and run: "AdjustUserBalance refs sha db p user amount now = (x, db')"
  show "db' = db \<or> (\<exists>q v u e. posted db q v u e db' \<and> bo_id q = bw_OperationID p)"
  proof (cases x)
    case (Inr e)
    then obtain c where c: "ParseInput amount True False = Inr c"
      "user_write db (normalized_params p now) ''adjustment'' user (adjustment_fingerprint sha (normalized_params p now) user c)
        (apply_adjustment refs (normalized_params p now) user c) = Inr (e, db')"
      using run AdjustUserBalance_ok by blast
    obtain v where v: "text_of c v" using ParseInput_text [OF c(1)] by blast
    show ?thesis using user_write_ok [OF c(2)]
    proof (elim exE conjE disjE)
      fix account db1
      assume lock: "lockBillingAccountTx db user = Inr account"
        and claim: "claimBillingOperationTx db (normalized_params p now) ''adjustment'' user
          (adjustment_fingerprint sha (normalized_params p now) user c) [] = Inr (None, db1)"
        and body: "apply_adjustment refs (normalized_params p now) user c account db1 = Inr (e, db')"
      have "posted db (new_operation (normalized_params p now) ''adjustment'' user
          (adjustment_fingerprint sha (normalized_params p now) user c)) user v e db'"
        by (rule adjustment_posted(1) [OF inv claim lockBillingAccountTx_Inr [OF lock] v body])
      then show ?thesis by (rule disjI2 [OF posted_new])
    qed simp
  qed (use run AdjustUserBalance_error in blast)
qed

lemma SetRechargeRate_error: "SetRechargeRate refs sha db p0 rate now = (Inl x, db') \<Longrightarrow> db' = db"
  by (auto simp: SetRechargeRate_def Let_def split: sum.splits if_splits dest: withTx_error)

lemma SetRechargeRate_ok:
  assumes "SetRechargeRate refs sha db p0 given now = (Inr x, db')"
  shows "db' = db \<or> (\<exists>rate fp db1. claimBillingOperationTx db (normalized_params p0 now) ''recharge_rate'' [] fp [] = Inr (None, db1)
      \<and> set_rate refs (normalized_params p0 now) rate db1 = Inr (x, db'))"
proof -
  obtain rate fp where tx: "andThen (claimBillingOperationTx db (normalized_params p0 now) ''recharge_rate'' [] fp []) (\<lambda>(replay, db1).
      case replay of
        Some i \<Rightarrow> andThen (replayBillingLedgerTx db1 i) (\<lambda>entry.
          case bl_rate entry of None \<Rightarrow> Inl ErrConflict
          | Some r \<Rightarrow> Inr (\<lparr>bs_rate = r, bs_updated_at = bl_created_at entry, bs_updated_by = Some (bl_actor entry)\<rparr>, db1))
      | None \<Rightarrow> set_rate refs (normalized_params p0 now) rate db1) = Inr (x, db')"
    using assms unfolding SetRechargeRate_def Let_def by (auto simp: withTx_ok split: sum.splits)
  then obtain c db1 where c: "claimBillingOperationTx db (normalized_params p0 now) ''recharge_rate'' [] fp [] = Inr (c, db1)"
    by (auto elim!: andThen_InrE)
  show ?thesis
  proof (cases c)
    case None
    then show ?thesis using tx c by auto
  next
    case (Some i)
    have "db1 = db" by (rule claim_old(1)) (use c Some in simp)
    then show ?thesis using tx unfolding c Some by (auto elim!: andThen_InrE split: option.splits)
  qed
qed

interpretation rate_change: ledger_writer "\<lambda>db. SetRechargeRate refs sha db p rate now" "bw_OperationID p"
  for refs sha p rate now
proof
  fix db x db' assume inv: "cash_inv db" and run: "SetRechargeRate refs sha db p rate now = (x, db')"
  show "db' = db \<or> (\<exists>q v u e. posted db q v u e db' \<and> bo_id q = bw_OperationID p)"
  proof (cases x)
    case (Inr y)
    show ?thesis using SetRechargeRate_ok [OF run [unfolded Inr]]
    proof (elim exE conjE disjE)
      fix r fp db1
      assume claim: "claimBillingOperationTx db (normalized_params p now) ''recharge_rate'' [] fp [] = Inr (None, db1)"
        and body: "set_rate refs (normalized_params p now) r db1 = Inr (y, db')"
      obtain e where "posted db (new_operation (normalized_params p now) ''recharge_rate'' [] fp)
          (bw_ActorUserID (normalized_params p now)) 0 e db'"
        using rate_posted [OF inv claim body] by blast
      then show ?thesis by (rule disjI2 [OF posted_new])
    qed simp
  qed (use run SetRechargeRate_error in blast)
qed

lemma SetBillingSourceDisabled_keeps:
  assumes inv: "cash_inv db"
  shows "cash_inv (snd (SetBillingSourceDisabled refs db user source disabled p now))"
    and "cash_kept db (snd (SetBillingSourceDisabled refs db user source disabled p now))"
proof -
  obtain x db' where run: "SetBillingSourceDisabled refs db user source disabled p now = (x, db')" by fastforce
  have "db' = db \<or> (\<exists>f es. db' = db\<lparr>cash_accounts := map (\<lambda>a. if ca_user a = user then f a else a) (cash_accounts db), cash_events := es\<rparr>
      \<and> (\<forall>a. ca_user (f a) = ca_user a \<and> ca_balance (f a) = ca_balance a \<and> ca_next_sequence (f a) = ca_next_sequence a))"
  proof (cases x)
    case (Inl e)
    then show ?thesis using run by (auto simp: SetBillingSourceDisabled_def Let_def split: if_splits dest: withTx_error)
  next
    case (Inr y)
    define stamp where "stamp = normalizedBillingTime (bw_At p) now"
    define f :: "billing_account \<Rightarrow> billing_account" where
      "f = (\<lambda>a. a\<lparr>ca_disabled := (if disabled then List.insert source (ca_disabled a) else removeAll source (ca_disabled a)),
              ca_updated_at := stamp\<rparr>)"
    obtain db1 q k t s md where s: "update_account db user f = Inr db1" "appendBillingAuditTx refs db1 q k t s md = Inr db'"
      using run unfolding Inr SetBillingSourceDisabled_def Let_def f_def stamp_def
      by (auto simp: withTx_ok elim!: andThen_InrE split: if_splits)
    obtain es where "db' = db1\<lparr>cash_events := es\<rparr>" using appendBillingAuditTx_Inr [OF s(2)] by blast
    then show ?thesis using update_account_Inr(1) [OF s(1)]
      by (intro disjI2 exI [of _ f] exI [of _ es]) (simp add: f_def)
  qed
  then consider "db' = db" | f es where "db' = db\<lparr>cash_accounts := map (\<lambda>a. if ca_user a = user then f a else a) (cash_accounts db), cash_events := es\<rparr>"
      "\<And>a. ca_user (f a) = ca_user a \<and> ca_balance (f a) = ca_balance a \<and> ca_next_sequence (f a) = ca_next_sequence a"
    by blast
  then have "cash_inv db' \<and> cash_kept db db'"
  proof cases
    case 2
    have users: "map ca_user (cash_accounts db') = map ca_user (cash_accounts db)" by (simp add: 2)
    have "account_check a \<and> ca_balance a = lots_total (cash_lots db) (ca_user a)" if a: "a \<in> set (cash_accounts db')" for a
    proof -
      obtain b where b: "b \<in> set (cash_accounts db)" "a = (if ca_user b = user then f b else b)" using a by (auto simp: 2(1))
      have old: "account_check b" "ca_balance b = lots_total (cash_lots db) (ca_user b)" using inv b(1) by (simp_all add: cash_inv_def)
      show ?thesis using old 2(2) [of b] unfolding b(2) account_check_def by (cases "ca_user b = user") simp_all
    qed
    moreover have "keys_unique ca_user (cash_accounts db')" using inv users by (simp add: cash_inv_def keys_unique_def)
    moreover have "cash_lots db' = cash_lots db" "cash_ledger db' = cash_ledger db" "cash_operations db' = cash_operations db"
      "cash_settings db' = cash_settings db" "cash_users db' = cash_users db" "cash_tombstones db' = cash_tombstones db"
      by (simp_all add: 2(1))
    ultimately show ?thesis using inv users by (simp add: cash_inv_def cash_kept_def)
  qed (use inv in simp)
  then show "cash_inv (snd (SetBillingSourceDisabled refs db user source disabled p now))"
    and "cash_kept db (snd (SetBillingSourceDisabled refs db user source disabled p now))" by (simp_all add: run)
qed

section \<open>Runs of cash operations\<close>

datatype cash_op =
    CashRecharge BillingWriteParams string string timestamp
  | CashAdjust BillingWriteParams string string timestamp
  | CashRate BillingWriteParams string timestamp
  | CashDisable string string bool BillingWriteParams timestamp

primrec cash_step :: "audit_refs \<Rightarrow> (string \<Rightarrow> string) \<Rightarrow> cash_op \<Rightarrow> cash_db \<Rightarrow> cash_db" where
  "cash_step refs sha (CashRecharge p user amount now) db = snd (RechargeUser refs sha db p user amount now)"
| "cash_step refs sha (CashAdjust p user amount now) db = snd (AdjustUserBalance refs sha db p user amount now)"
| "cash_step refs sha (CashRate p rate now) db = snd (SetRechargeRate refs sha db p rate now)"
| "cash_step refs sha (CashDisable user source disabled p now) db = snd (SetBillingSourceDisabled refs db user source disabled p now)"

lemma cash_step_keeps: "cash_inv db \<Longrightarrow> cash_inv (cash_step refs sha c db) \<and> cash_kept db (cash_step refs sha c db)"
  by (cases c) (simp_all add: recharge.keeps_inv recharge.keeps_rows adjustment.keeps_inv adjustment.keeps_rows
      rate_change.keeps_inv rate_change.keeps_rows SetBillingSourceDisabled_keeps)

lemma cash_run_keeps:
  "cash_inv db \<Longrightarrow> cash_inv (fold (cash_step refs sha) cs db) \<and> cash_kept db (fold (cash_step refs sha) cs db)"
proof (induction cs arbitrary: db)
  case (Cons c cs)
  then show ?case using cash_step_keeps [OF Cons.prems, of refs sha c] cash_kept_trans by (simp, blast)
qed simp

end
