(* ===== verification/Cash_Properties.thy ===== *)
theory Cash_Properties
  imports Cash_Writers
begin

text \<open>
  The properties of the cash accounts over runs of the operations of \<open>internal/store/billing.go\<close> that an administrator
  or a user calls: recharge, adjustment, change of the recharge rate, and switching a source of funds off or on.
\<close>

section \<open>Sums\<close>

lemma lots_total_user_lots:
  assumes "\<forall>t \<in> set (cash_lots db). lot_check t"
  shows "sum_list (map lt_remaining (user_lots db user)) = lots_total (cash_lots db) user"
proof -
  have "sum_list (map lt_remaining (filter (\<lambda>t. 0 < lt_remaining t) (filter (\<lambda>t. lt_user t = user) (cash_lots db))))
      = sum_list (map lt_remaining (filter (\<lambda>t. lt_user t = user) (cash_lots db)))"
    by (rule sum_rows_filter) (use assms in \<open>auto simp: lot_check_def\<close>)
  then show ?thesis unfolding sum_user_lots lots_total_def by (simp add: conj_commute)
qed

lemma debit_adjustment_run:
  assumes inv: "cash_inv db" and a: "row_lookup ca_user user (cash_accounts db) = Some account" and t: "text_of amount v"
    and v: "v \<le> 0" and enough: "0 \<le> ca_balance account + v"
  shows "\<exists>d. debit_adjustment user amount db = Inr (db\<lparr>cash_lots := map (take_from d) (cash_lots db)\<rparr>)
       \<and> debited d (user_lots db user) (- v) 0"
proof -
  have keys: "keys_unique lt_id (cash_lots db)" and checks: "\<forall>t \<in> set (cash_lots db). lot_check t"
    using inv by (simp_all add: cash_inv_def)
  obtain d n' where d: "debit_adjustment user amount db
      = (if 0 < n' then Inl ErrConflict else Inr (db\<lparr>cash_lots := map (take_from d) (cash_lots db)\<rparr>))"
    "debited d (user_lots db user) (- v) n'"
    using debit_adjustment_cases [OF keys checks t v] by blast
  have n': "n' = - v - sum_list (map (\<lambda>t. d (lt_id t)) (user_lots db user))" "0 \<le> n'" using d(2) by (simp_all add: debited_def)
  have "n' = 0"
  proof (rule ccontr)
    assume "n' \<noteq> 0"
    then have "\<forall>t \<in> set (user_lots db user). d (lt_id t) = lt_remaining t" using d(2) n'(2) by (simp add: debited_def)
    then have "map (\<lambda>t. d (lt_id t)) (user_lots db user) = map lt_remaining (user_lots db user)" by simp
    then have "sum_list (map (\<lambda>t. d (lt_id t)) (user_lots db user)) = lots_total (cash_lots db) user"
      by (simp only: lots_total_user_lots [OF checks])
    also have "\<dots> = ca_balance account" using inv locked_account(1,2) [OF inv a] by (simp add: cash_inv_def)
    finally show False using n' enough \<open>n' \<noteq> 0\<close> by simp
  qed
  then show ?thesis using d by auto
qed

section \<open>Replays\<close>



section \<open>A small database\<close>

definition sample_refs :: audit_refs where
  "sample_refs = \<lparr>is_user = (\<lambda>_. True), is_session = (\<lambda>_ _. True), is_inet = (\<lambda>_. True)\<rparr>"

definition sample_sha :: "string \<Rightarrow> string" where
  "sample_sha t = take 32 (rev t @ replicate 32 CHR ''0'')"

definition sample_lot :: "int \<Rightarrow> int \<Rightarrow> int \<Rightarrow> cash_lot" where
  "sample_lot i n amount = \<lparr>lt_id = i, lt_user = ''ann'', lt_sequence = n, lt_source = i, lt_original = amount,
     lt_remaining = amount, lt_created_at = 1\<rparr>"

definition sample_entry :: "int \<Rightarrow> string \<Rightarrow> int \<Rightarrow> int \<Rightarrow> BillingLedgerEntry" where
  "sample_entry i op amount after = \<lparr>bl_id = i, bl_user = ''ann'', bl_operation = op, bl_type = ''adjustment'', bl_amount = amount,
     bl_cash_delta = amount, bl_balance_after = Some after, bl_cny = None, bl_rate = None, bl_reason = ''start'',
     bl_actor = ''root'', bl_created_at = 1\<rparr>"

definition sample_cash :: cash_db where
  "sample_cash = \<lparr>cash_users = [(''root'', ''active''), (''ann'', ''active'')],
     cash_accounts = [\<lparr>ca_user = ''ann'', ca_balance = 5 * 10 ^ 12, ca_next_sequence = 3, ca_updated_at = 1, ca_disabled = []\<rparr>],
     cash_settings = \<lparr>bs_rate = 10, bs_updated_at = 1, bs_updated_by = None\<rparr>,
     cash_operations = [], cash_ledger = [sample_entry 1 ''a'' (2 * 10 ^ 12) (2 * 10 ^ 12), sample_entry 2 ''b'' (3 * 10 ^ 12) (5 * 10 ^ 12)],
     cash_lots = [sample_lot 2 2 (3 * 10 ^ 12), sample_lot 1 1 (2 * 10 ^ 12)],
     cash_tombstones = [], cash_events = []\<rparr>"

definition sample_write :: "string \<Rightarrow> BillingWriteParams" where
  "sample_write op = \<lparr>bw_OperationID = op, bw_Reason = ''top up'', bw_ActorUserID = ''root'', bw_ActorSessionID = [],
     bw_RequestID = [], bw_SourceIP = [], bw_At = 5\<rparr>"

lemma sample_cash_inv: "cash_inv sample_cash"
  by (simp add: sample_cash_def sample_lot_def sample_entry_def cash_inv_def ledger_check_def opt_all_def keys_unique_def lots_total_def account_check_def lot_check_def numeric_range_def)


section \<open>Properties\<close>

text \<open>
  C39: Every run of cash operations, whatever they are and in whatever order, keeps the tables well formed: identifiers
  unique, all rows within the check constraints of the schema, the recharge rate positive, every finished operation with
  its ledger entry, and every balance equal to what is left in the lots of its user.
\<close>

theorem cash_tables_wellformed:
  assumes "cash_inv db"
  shows "cash_inv (fold (cash_step refs sha) cs db)"
  using cash_run_keeps [OF assms] by blast

theorem cash_tables_wellformed_witness:
  "cash_inv sample_cash \<and> cash_inv (fold (cash_step sample_refs sample_sha)
     [CashRecharge (sample_write ''op1'') ''ann'' ''0.10'' 9, CashAdjust (sample_write ''op2'') ''ann'' ''-4'' 10,
      CashRate (sample_write ''op3'') ''7'' 11, CashDisable ''ann'' ''cash'' True (sample_write ''op4'') 12] sample_cash)"
  using cash_tables_wellformed [OF sample_cash_inv] sample_cash_inv by blast

text \<open>
  C4: Over every run, the balance of an account changes by exactly the cash amounts of the ledger entries written for its
  user: no money appears or disappears without an entry.
\<close>

theorem cash_changes_are_ledgered:
  assumes "cash_inv db" and "row_lookup ca_user user (cash_accounts db) = Some a"
  shows "\<exists>a'. row_lookup ca_user user (cash_accounts (fold (cash_step refs sha) cs db)) = Some a'
    \<and> ca_balance a' - ca_balance a
       = ledger_total (cash_ledger (fold (cash_step refs sha) cs db)) user - ledger_total (cash_ledger db) user"
proof -
  define db' where "db' = fold (cash_step refs sha) cs db"
  have inv': "cash_inv db'" and kept: "cash_kept db db'" using cash_run_keeps [OF assms(1)] by (simp_all add: db'_def)
  have "user \<in> set (map ca_user (cash_accounts db))" using row_lookup_Some [OF assms(2)] by auto
  then have "user \<in> set (map ca_user (cash_accounts db'))" using kept by (simp add: cash_kept_def)
  then obtain a' where a': "row_lookup ca_user user (cash_accounts db') = Some a'"
    using row_lookup_None [of ca_user user "cash_accounts db'"] by (cases "row_lookup ca_user user (cash_accounts db')") auto
  have "ca_balance a = lots_total (cash_lots db) user" using locked_account(1,2) [OF assms] assms(1) by (simp add: cash_inv_def)
  moreover have "ca_balance a' = lots_total (cash_lots db') user" using locked_account(1,2) [OF inv' a'] inv' by (simp add: cash_inv_def)
  moreover have "lots_total (cash_lots db') user - ledger_total (cash_ledger db') user
      = lots_total (cash_lots db) user - ledger_total (cash_ledger db) user" using kept by (simp add: cash_kept_def)
  ultimately have "ca_balance a' - ca_balance a = ledger_total (cash_ledger db') user - ledger_total (cash_ledger db) user" by linarith
  then show ?thesis using a' unfolding db'_def by blast
qed

theorem cash_changes_are_ledgered_witness:
  "\<exists>a'. row_lookup ca_user ''ann'' (cash_accounts (fold (cash_step sample_refs sample_sha)
       [CashRecharge (sample_write ''op1'') ''ann'' ''0.10'' 9] sample_cash)) = Some a'
    \<and> ca_balance a' - 5 * 10 ^ 12
       = ledger_total (cash_ledger (fold (cash_step sample_refs sample_sha)
           [CashRecharge (sample_write ''op1'') ''ann'' ''0.10'' 9] sample_cash)) ''ann''
         - ledger_total (cash_ledger sample_cash) ''ann''"
  using cash_changes_are_ledgered [OF sample_cash_inv, of "''ann''" "hd (cash_accounts sample_cash)" sample_refs sample_sha
      "[CashRecharge (sample_write ''op1'') ''ann'' ''0.10'' 9]"]
  by (simp add: sample_cash_def row_lookup_def)



text \<open>
  C12: A negative adjustment beyond the balance fails for insufficient funds. Within the balance it never fails for
  lack of lots: it takes exactly its amount, from the oldest lots first, and touches a lot only when every older one of
  the user is used up.
\<close>

theorem debit_adjustment_exact:
  assumes "cash_inv db" and "row_lookup ca_user user (cash_accounts db) = Some account" and "text_of amount v" and "v \<le> 0"
  shows "if ca_balance account + v < 0
    then apply_adjustment refs p user amount account db = Inl ErrInsufficientFunds
    else \<exists>d. debit_adjustment user amount db = Inr (db\<lparr>cash_lots := map (take_from d) (cash_lots db)\<rparr>)
           \<and> debited d (user_lots db user) (- v) 0"
proof (cases "ca_balance account + v < 0")
  case True
  obtain s where s: "billingAdd (numeric_text (ca_balance account)) amount = Inr s" "text_of s (ca_balance account + v)"
    using billingAdd_of [OF numeric_text_of assms(3)] by blast
  have "(of_int (ca_balance account + v) / 10 ^ 12 :: rat) < 0"
    using True by (simp only: divide_less_0_iff of_int_less_0_iff) simp
  then have "apply_adjustment refs p user amount account db = Inl ErrInsufficientFunds"
    unfolding apply_adjustment_def s(1) stored_amount_def by (simp add: billingRat_of [OF s(2)] guard_def del: of_int_add)
  then show ?thesis using True by simp
next
  case False
  then show ?thesis using debit_adjustment_run [OF assms] by simp
qed

theorem debit_adjustment_exact_witness:
  "\<exists>d. debit_adjustment ''ann'' ''-4'' sample_cash
       = Inr (sample_cash\<lparr>cash_lots := map (take_from d) (cash_lots sample_cash)\<rparr>)
     \<and> debited d (user_lots sample_cash ''ann'') (4 * 10 ^ 12) 0"
proof -
  have "text_of ''-4'' (- (4 * 10 ^ 12))" unfolding text_of_def by code_simp
  then show ?thesis
    using debit_adjustment_exact [OF sample_cash_inv, of "''ann''" "hd (cash_accounts sample_cash)" "''-4''" "- (4 * 10 ^ 12)"]
    by (simp add: sample_cash_def row_lookup_def)
qed

end
