(* ===== verification/Spec2Isabelle.thy ===== *)
theory Spec2Isabelle
  imports Amount Limiter Pricing Guard_Scheduler Quota_Properties Credential_Properties Cash_Properties
begin

text \<open>
  A verification library for codex-gateway, a gateway in Go that admits requests of users to upstream model providers,
  counts them against quotas, prices what they used and charges it. Names of files are relative to \<^verbatim>\<open>src/\<close>.

  \<^bold>\<open>The parts and how they meet.\<close> A request presents an API key (\<^verbatim>\<open>internal/security\<close>). The store admits it against durable
  quotas (\<^verbatim>\<open>internal/store/quota.go\<close>), forwards it to an upstream account that the quota guard has not taken out of
  allocation (\<^verbatim>\<open>internal/store/upstream_quota_guard.go\<close>, driven by \<^verbatim>\<open>internal/server/upstream_quota_guard.go\<close>), selects a
  price from the operator's catalogue (\<^verbatim>\<open>internal/config/pricing.go\<close>), computes the cost in exact decimals
  (\<^verbatim>\<open>internal/billing/amount.go\<close>) and charges accounts that administrators fund (\<^verbatim>\<open>internal/store/billing.go\<close>).
  Administrative writes leave audit events (\<^verbatim>\<open>internal/store/models.go\<close>). The package \<^verbatim>\<open>internal/limit\<close> is an in-process
  limiter with its own tests; no other package imports it.

  \<^bold>\<open>How the code is modelled.\<close> A Go string is a byte string. Times and durations are integers in nanoseconds; the 64-bit
  counters are integers where the code or a constraint keeps them in range, and the limiter's overflow check is explicit.
  A struct is a record, an error a value of a sum type, so that every early return is a branch. A store operation is a
  function on a record of tables; a transaction (\<open>withTx\<close>) returns a value and the new tables or fails without effect,
  because the row locks the code takes serialise the transactions on the same rows. Constraints of the migrations are
  executable checks that make a statement fail. SHA-256, HMAC, HKDF, AES-GCM, random bytes, the decoded JSON of a request
  and answers of upstream services are parameters.

  \<^bold>\<open>The theories.\<close>
  \<^item> \<open>Prelude\<close>: Go strings, digit strings, calendar dates, and the rewrite collections the components share.
  \<^item> \<open>Amount\<close> (\<^verbatim>\<open>internal/billing/amount.go\<close>, the helpers of \<^verbatim>\<open>internal/store/billing.go\<close>): parsing of decimals by the
    pattern of the source, rounding, and the cost of a request. Parsing accepts exactly the canonical numbers in range,
    rounding is to the nearest with ties away from zero, and each cost formula equals its exact rational value, rounded.
  \<^item> \<open>Pricing\<close> (\<^verbatim>\<open>pricing.go\<close>, \<^verbatim>\<open>model_prices.go\<close>): validation of a catalogue, snapshots, selection of a price with its
    fallbacks, and administrator overrides. A selection is the published price or, when the combination is unknown, an
    upper bound of the published ones; a validated snapshot always gives a price; the order of a catalogue is irrelevant.
  \<^item> \<open>Daily_Store\<close>, \<open>Limiter\<close> (\<^verbatim>\<open>internal/limit\<close>): the store interface is the locale \<open>daily_store\<close>, interpreted for the
    in-memory store; the limiter is a transition relation whose steps are the mutex sections, so that every interleaving
    of callers, rollbacks and releases is covered. Counters equal the open leases, admission is all or nothing, and daily
    limits are never passed.
  \<^item> \<open>Table\<close>, \<open>Audit_Log\<close>: statements on rows (locale \<open>keyed_table\<close>, interpreted for lists of rows), transactions, error
    classes; the filter that keeps secrets out of audit metadata, with its JSON text.
  \<^item> \<open>Quota_Guard\<close>, \<open>Guard_Scheduler\<close>: the rule that takes an account out of allocation, claims of checks, readings,
    manual changes and settings; the scheduler, the automatic check and the two owner requests on top of them. Checks of
    an account are spaced and bounded in number, a finished check schedules the next one, manual states survive readings.
  \<^item> \<open>Quota\<close>, \<open>Quota_Accounting\<close>, \<open>Quota_Properties\<close>: admission, settlement, release, leases, retention. Counters equal
    what the reservations account for in every reachable state; an admitted request was below every limit; settlement is
    final and idempotent; release undoes admission; locks are taken in one order.
  \<^item> \<open>Encoding\<close>, \<open>Credentials\<close>, \<open>Credential_Properties\<close>: base64url and Crockford base32 (locale \<open>codec\<close>), API keys, opaque
    tokens, recovery codes, sealed secrets. Parsing accepts exactly what generation writes, kinds of token are disjoint,
    sealed secrets open only under their own identifiers, log texts hold no secret.
  \<^item> \<open>Cash_Ledger\<close>, \<open>Cash_Accounting\<close>, \<open>Cash_Writers\<close>, \<open>Cash_Properties\<close> (\<^verbatim>\<open>billing.go\<close>): recharge, adjustment, recharge rate and
    the switches of funding sources over accounts, credit lots, ledger and operations. The writes share the contract
    \<open>ledger_writer\<close>. Balances equal the lots and change only with ledger entries, constraints hold in every reachable
    state, a repeated request answers with the first entry, and a debit takes the oldest lots first.

  \<^bold>\<open>Bounds.\<close> No definition uses fuel. Loops are structural recursions over the rows or reservations they visit; the
  recovery-code loop, which draws until ten distinct codes are found, is a recursion on the drawn bytes, and the property
  about it says which byte sequences make it return. Amounts have the range of \<^verbatim>\<open>NUMERIC(30,12)\<close>.

  \<^bold>\<open>Not modelled.\<close> Decoding of JSON and of regular expressions as libraries (the values and the language they produce are
  modelled where the code uses them); connection failures and cancellation of database calls; the listings and
  aggregations that the database computes; reservation and settlement of request charges over subscriptions and groups,
  with the administration of plans, groups, identities, models and upstream accounts, which are sequences of SQL
  statements over tables of their own; the HTTP server apart from the quota guard; the proxy with its streams; the
  bridge processes, migrations and configuration loading, which are input and output; the statistics of
  \<^verbatim>\<open>internal/modelid\<close>, which are in floating point.
\<close>

end
